theory Spec2Isabelle
  imports Main "HOL-Library.Monad_Syntax"
begin

section \<open>Text, characters and the string methods the converter uses\<close>

text \<open>
  The converter works on Python \<open>str\<close> values, sequences of code points. They are
  modelled as \<^typ>\<open>string\<close>, one \<^typ>\<open>char\<close> per code point, which covers the code
  points below 256 (ASCII and Latin-1, the section sign \<open>0xA7\<close> of the reference grammar
  included). Within that range the only decimal digits are \<open>0\<close> to \<open>9\<close>.
\<close>

definition NL :: char where
  "NL = CHR 0x0A"

definition SECTION_SIGN :: char where
  "SECTION_SIGN = CHR 0xA7"

text \<open>The regular-expression class \<open>\d\<close> and \<open>str.isdigit\<close> on this range.\<close>

definition isdigit :: "char \<Rightarrow> bool" where
  "isdigit c = (let n = (of_char c :: nat) in 48 \<le> n \<and> n \<le> 57)"

text \<open>
  \<open>str.isspace\<close>, which is also the class \<open>\s\<close> and what \<open>str.strip()\<close> removes:
  tab, line feed, vertical tab, form feed, carriage return, the four separators
  \<open>0x1C\<close> to \<open>0x1F\<close>, space, next line \<open>0x85\<close> and no-break space \<open>0xA0\<close>.
\<close>

definition isspace :: "char \<Rightarrow> bool" where
  "isspace c = (let n = (of_char c :: nat) in
     (9 \<le> n \<and> n \<le> 13) \<or> (28 \<le> n \<and> n \<le> 32) \<or> n = 133 \<or> n = 160)"

text \<open>
  \<open>str.lower\<close> on one code point below 256: the ASCII capitals and the Latin-1
  capitals \<open>0xC0\<close> to \<open>0xDE\<close> (the multiplication sign \<open>0xD7\<close> apart) move up by 32.
\<close>

definition lower_char :: "char \<Rightarrow> char" where
  "lower_char c = (let n = (of_char c :: nat) in
     if (65 \<le> n \<and> n \<le> 90) \<or> (192 \<le> n \<and> n \<le> 222 \<and> n \<noteq> 215)
     then char_of (n + 32) else c)"

definition lower :: "string \<Rightarrow> string" where
  "lower s = map lower_char s"

definition startswith :: "string \<Rightarrow> string \<Rightarrow> bool" where
  "startswith s p = (take (length p) s = p)"

text \<open>The substring test \<open>sub in s\<close>.\<close>

fun contains :: "string \<Rightarrow> string \<Rightarrow> bool" where
  "contains [] sub = (sub = [])"
| "contains (c # cs) sub = (startswith (c # cs) sub \<or> contains cs sub)"

definition strip :: "string \<Rightarrow> string" where
  "strip s = rev (dropWhile isspace (rev (dropWhile isspace s)))"

text \<open>
  \<open>s.split(sep)\<close> for a one-character separator: never an empty list, one more
  field than there are separators. \<open>sep.join(fields)\<close> is its inverse.
\<close>

fun split :: "char \<Rightarrow> string \<Rightarrow> string list" where
  "split sep [] = [[]]"
| "split sep (c # cs) =
     (if c = sep then [] # split sep cs
      else (case split sep cs of
              [] \<Rightarrow> [[c]]
            | l # ls \<Rightarrow> (c # l) # ls))"

fun join :: "char \<Rightarrow> string list \<Rightarrow> string" where
  "join sep [] = []"
| "join sep [l] = l"
| "join sep (l # m # ls) = l @ sep # join sep (m # ls)"

text \<open>
  \<open>s.replace(old, new)\<close>: the occurrences of \<open>old\<close> are found from left to right
  and do not overlap; the text of \<open>new\<close> is not searched again. An empty \<open>old\<close>
  matches between all characters.
\<close>

fun replace :: "string \<Rightarrow> string \<Rightarrow> string \<Rightarrow> string" where
  "replace old new [] = (if old = [] then new else [])"
| "replace old new (c # cs) =
     (if old = [] then new @ c # replace old new cs
      else if startswith (c # cs) old
        then new @ replace old new (drop (length old) (c # cs))
        else c # replace old new cs)"

section \<open>The shapes of the reference grammar\<close>

text \<open>An identifier \<open>\d{2}-\d{2}\<close> and a number \<open>\d+\<close>.\<close>

definition is_doc_id :: "string \<Rightarrow> bool" where
  "is_doc_id s =
     (case s of
        [a, b, h, c, d] \<Rightarrow> isdigit a \<and> isdigit b \<and> h = CHR ''-'' \<and> isdigit c \<and> isdigit d
      | _ \<Rightarrow> False)"

definition is_digits :: "string \<Rightarrow> bool" where
  "is_digits s = (s \<noteq> [] \<and> list_all isdigit s)"

section \<open>Regular expressions, as the converter calls them\<close>

text \<open>
  A pattern is tried at one position of the text: it gets the text from that position
  on and returns the captured groups with the text left after the match, or nothing.
  Every pattern of this type in the development is deterministic (a greedy run is
  always followed by a character that the run excludes), so backtracking never finds
  a second way to match and the one result is what the \<open>re\<close> module reports.
\<close>

type_synonym 'g pattern = "string \<Rightarrow> ('g \<times> string) option"

text \<open>A literal piece of a pattern.\<close>

definition lit :: "string \<Rightarrow> string \<Rightarrow> string option" where
  "lit p s = (if startswith s p then Some (drop (length p) s) else None)"

text \<open>\<open>\d{n}\<close>: exactly \<open>n\<close> digits.\<close>

definition digits_n :: "nat \<Rightarrow> string \<Rightarrow> (string \<times> string) option" where
  "digits_n n s =
     (if n \<le> length s \<and> list_all isdigit (take n s) then Some (take n s, drop n s) else None)"

text \<open>\<open>\d+\<close>: the longest run of digits, at least one.\<close>

definition digits1 :: "string \<Rightarrow> (string \<times> string) option" where
  "digits1 s =
     (if takeWhile isdigit s = [] then None
      else Some (takeWhile isdigit s, dropWhile isdigit s))"

text \<open>The group \<open>(\d{2}-\d{2})\<close>, a document identifier.\<close>

definition doc_id :: "string pattern" where
  "doc_id s = do {
     (a, r) \<leftarrow> digits_n 2 s;
     r \<leftarrow> lit ''-'' r;
     (b, r) \<leftarrow> digits_n 2 r;
     Some (a @ ''-'' @ b, r) }"

text \<open>
  \<open>re.sub(pattern, repl, text)\<close>: the text is scanned from the left; where the
  pattern matches, \<open>repl\<close> is called with the matched text (group 0) and the groups,
  and the scan goes on after the match; elsewhere the character is copied. After an
  empty match the next character is copied and the scan moves on by one.
\<close>

fun re_sub :: "'g pattern \<Rightarrow> (string \<Rightarrow> 'g \<Rightarrow> string) \<Rightarrow> string \<Rightarrow> string" where
  "re_sub p repl [] = (case p [] of None \<Rightarrow> [] | Some (g, r) \<Rightarrow> repl [] g)"
| "re_sub p repl (c # cs) =
     (case p (c # cs) of
        None \<Rightarrow> c # re_sub p repl cs
      | Some (g, r) \<Rightarrow>
          if length r < length (c # cs)
          then repl (take (length (c # cs) - length r) (c # cs)) g @ re_sub p repl r
          else repl [] g @ c # re_sub p repl cs)"

text \<open>\<open>re.finditer(pattern, text)\<close>: the groups of the same matches, in order.\<close>

fun re_finditer :: "'g pattern \<Rightarrow> string \<Rightarrow> 'g list" where
  "re_finditer p [] = (case p [] of None \<Rightarrow> [] | Some (g, r) \<Rightarrow> [g])"
| "re_finditer p (c # cs) =
     (case p (c # cs) of
        None \<Rightarrow> re_finditer p cs
      | Some (g, r) \<Rightarrow>
          if length r < length (c # cs)
          then g # re_finditer p r
          else g # re_finditer p cs)"

text \<open>\<open>re.search(pattern, text)\<close>: the groups of the leftmost match.\<close>

fun re_search :: "'g pattern \<Rightarrow> string \<Rightarrow> 'g option" where
  "re_search p [] = map_option fst (p [])"
| "re_search p (c # cs) =
     (case p (c # cs) of
        None \<Rightarrow> re_search p cs
      | Some (g, r) \<Rightarrow> Some g)"

text \<open>\<open>re.match(pattern, text)\<close>, and \<open>re.search\<close> of a pattern that starts with \<open>^\<close>.\<close>

definition re_match :: "'g pattern \<Rightarrow> string \<Rightarrow> 'g option" where
  "re_match p s = map_option fst (p s)"

section \<open>Core/CrossReferenceProcessor.py\<close>

text \<open>
  The registry is a dictionary from document identifiers to dictionaries; the resolver
  reads the entries \<open>title\<close> and \<open>url\<close>, both strings, with a default when the key is
  absent. Its iteration order (insertion order) decides which entry a decision
  reference finds first, so the registry is an association list in that order.
\<close>

type_synonym doc_info = "string \<rightharpoonup> string"

type_synonym registry = "(string \<times> doc_info) list"

definition dict_get :: "doc_info \<Rightarrow> string \<Rightarrow> string \<Rightarrow> string" where
  "dict_get d k dflt = (case d k of None \<Rightarrow> dflt | Some v \<Rightarrow> v)"

text \<open>The pattern \<open>\[(\d{2}-\d{2})\]\<close>.\<close>

definition DocRefPattern :: "string pattern" where
  "DocRefPattern s = do {
     r \<leftarrow> lit ''['' s;
     (DocID, r) \<leftarrow> doc_id r;
     r \<leftarrow> lit '']'' r;
     Some (DocID, r) }"

text \<open>
  The pattern \<open>\[(\d{2}-\d{2}) \<section>(\d+\.\d+)\]\<close>; the groups are the identifier
  and the section number.
\<close>

definition SectionRefPattern :: "(string \<times> string) pattern" where
  "SectionRefPattern s = do {
     r \<leftarrow> lit ''['' s;
     (DocID, r) \<leftarrow> doc_id r;
     r \<leftarrow> lit [CHR '' '', SECTION_SIGN] r;
     (a, r) \<leftarrow> digits1 r;
     r \<leftarrow> lit ''.'' r;
     (b, r) \<leftarrow> digits1 r;
     r \<leftarrow> lit '']'' r;
     Some ((DocID, a @ ''.'' @ b), r) }"

text \<open>The pattern \<open>\[(DECISION-\d{8}-\d+)\]\<close>.\<close>

definition DecisionRefPattern :: "string pattern" where
  "DecisionRefPattern s = do {
     r \<leftarrow> lit ''[DECISION-'' s;
     (d, r) \<leftarrow> digits_n 8 r;
     r \<leftarrow> lit ''-'' r;
     (n, r) \<leftarrow> digits1 r;
     r \<leftarrow> lit '']'' r;
     Some (''DECISION-'' @ d @ ''-'' @ n, r) }"

text \<open>The three replacement functions; \<open>g0\<close> is \<open>Match.group(0)\<close>.\<close>

definition ReplaceDocRef :: "registry \<Rightarrow> string \<Rightarrow> string \<Rightarrow> string" where
  "ReplaceDocRef DocumentRegistry g0 DocID =
     (case map_of DocumentRegistry DocID of
        Some DocInfo \<Rightarrow>
          (let URL = dict_get DocInfo ''url'' []
           in ''['' @ DocID @ '']('' @ URL @ '')'')
      | None \<Rightarrow> g0)"

definition ReplaceSectionRef :: "registry \<Rightarrow> string \<Rightarrow> string \<times> string \<Rightarrow> string" where
  "ReplaceSectionRef DocumentRegistry g0 g =
     (case g of (DocID, Section) \<Rightarrow>
        (case map_of DocumentRegistry DocID of
           Some DocInfo \<Rightarrow>
             (let URL = dict_get DocInfo ''url'' [];
                  Anchor = replace ''.'' [] (lower Section)
              in ''['' @ DocID @ [CHR '' '', SECTION_SIGN] @ Section
                   @ '']('' @ URL @ ''#'' @ Anchor @ '')'')
         | None \<Rightarrow> g0))"

text \<open>
  The loop of \<open>ReplaceDecisionRef\<close> over the registry's items: the link of the first
  entry whose title starts with \<open>DECISION\<close> and contains the decision identifier.
\<close>

fun FindDecision :: "registry \<Rightarrow> string \<Rightarrow> string option" where
  "FindDecision [] DecisionID = None"
| "FindDecision ((DocID, DocInfo) # Items) DecisionID =
     (let Title = dict_get DocInfo ''title'' []
      in if startswith Title ''DECISION'' \<and> contains Title DecisionID
         then (let URL = dict_get DocInfo ''url'' [];
                   Anchor = lower DecisionID
               in Some (''['' @ DecisionID @ '']('' @ URL @ ''#'' @ Anchor @ '')''))
         else FindDecision Items DecisionID)"

definition ReplaceDecisionRef :: "registry \<Rightarrow> string \<Rightarrow> string \<Rightarrow> string" where
  "ReplaceDecisionRef DocumentRegistry g0 DecisionID =
     (case FindDecision DocumentRegistry DecisionID of
        Some Link \<Rightarrow> Link
      | None \<Rightarrow>
          ''['' @ DecisionID @ '']({{ site.baseurl }}/docs/governance/decisions/#''
            @ lower DecisionID @ '')'')"

definition ProcessCrossReferences :: "string \<Rightarrow> registry \<Rightarrow> string" where
  "ProcessCrossReferences Content DocumentRegistry =
     (let Content = re_sub DocRefPattern (ReplaceDocRef DocumentRegistry) Content;
          Content = re_sub SectionRefPattern (ReplaceSectionRef DocumentRegistry) Content;
          Content = re_sub DecisionRefPattern (ReplaceDecisionRef DocumentRegistry) Content
      in Content)"

section \<open>Utils/PathManager.py\<close>

text \<open>A character class \<open>[...]\<close>: one character of the given ones.\<close>

definition char_in :: "string \<Rightarrow> string \<Rightarrow> string option" where
  "char_in cls s = (case s of [] \<Rightarrow> None | c # r \<Rightarrow> if c \<in> set cls then Some r else None)"

text \<open>
  \<open>$\<close> without the multi-line flag: the end of the text, or the place before a line
  feed that ends the text. It consumes nothing.
\<close>

definition eos :: "string \<Rightarrow> string option" where
  "eos s = (if s = [] \<or> s = [NL] then Some s else None)"

text \<open>The three patterns of \<open>GetDocumentID\<close>, without their leading \<open>^\<close>.\<close>

definition IdSeparatorPattern :: "string pattern" where
  "IdSeparatorPattern s = do {
     (DocID, r) \<leftarrow> doc_id s;
     r \<leftarrow> char_in ''- _'' r;
     Some (DocID, r) }"

definition IdOnlyPattern :: "string pattern" where
  "IdOnlyPattern s = do {
     (DocID, r) \<leftarrow> doc_id s;
     r \<leftarrow> lit ''.md'' r;
     r \<leftarrow> eos r;
     Some (DocID, r) }"

definition IdSuffixPattern :: "string pattern" where
  "IdSuffixPattern s = do {
     r \<leftarrow> lit ''-'' s;
     (DocID, r) \<leftarrow> doc_id r;
     r \<leftarrow> lit ''.md'' r;
     r \<leftarrow> eos r;
     Some (DocID, r) }"

text \<open>
  The list \<open>Patterns\<close>, each with the way \<open>re.search\<close> tries it: the first two start
  with \<open>^\<close> and can match at the start of the name only, the third anywhere.
\<close>

definition Patterns :: "(string \<Rightarrow> string option) list" where
  "Patterns = [re_match IdSeparatorPattern, re_match IdOnlyPattern, re_search IdSuffixPattern]"

text \<open>The loop over the patterns: the first that matches gives the identifier.\<close>

fun first_match :: "(string \<Rightarrow> string option) list \<Rightarrow> string \<Rightarrow> string" where
  "first_match [] Filename = []"
| "first_match (Pattern # Rest) Filename =
     (case Pattern Filename of
        Some DocID \<Rightarrow> DocID
      | None \<Rightarrow> first_match Rest Filename)"

definition GetDocumentID :: "string \<Rightarrow> string" where
  "GetDocumentID Filename = first_match Patterns Filename"

text \<open>
  \<open>pathlib\<close>'s stem of a file name: the name up to its last dot, when that dot is
  neither the first nor the last character.
\<close>

definition stem :: "string \<Rightarrow> string" where
  "stem name =
     (let after = length (takeWhile (\<lambda>c. c \<noteq> CHR ''.'') (rev name))
      in if CHR ''.'' \<in> set name \<and> 0 < after \<and> after + 1 < length name
         then take (length name - after - 1) name
         else name)"

text \<open>
  The three shapes of a file name, as the specification words them: the identifier
  and a separator at the start of the name; the identifier as the whole stem; the
  identifier as the end of the stem.
\<close>

definition starts_with_id :: "string \<Rightarrow> bool" where
  "starts_with_id name =
     (is_doc_id (take 5 name) \<and> (case drop 5 name of [] \<Rightarrow> False | c # _ \<Rightarrow> c \<in> set ''- _''))"

definition stem_is_id :: "string \<Rightarrow> bool" where
  "stem_is_id name = is_doc_id (stem name)"

definition stem_ends_with_id :: "string \<Rightarrow> bool" where
  "stem_ends_with_id name = is_doc_id (drop (length (stem name) - 5) (stem name))"

text \<open>
  The extraction as the specification words it: the first of the three shapes that
  the name has gives the identifier.
\<close>

definition GetDocumentID_spec :: "string \<Rightarrow> string" where
  "GetDocumentID_spec name =
     (if starts_with_id name then take 5 name
      else if stem_is_id name then stem name
      else if stem_ends_with_id name then drop (length (stem name) - 5) (stem name)
      else [])"

section \<open>Core/DocumentProcessor.py\<close>

subsection \<open>RemoveMetadataHeader\<close>

text \<open>The conditions of the two \<open>while\<close> loops, on one line.\<close>

definition is_timestamp_or_blank :: "string \<Rightarrow> bool" where
  "is_timestamp_or_blank Line =
     (startswith Line ''**Created:'' \<or> startswith Line ''**Last Modified:'' \<or> strip Line = [])"

definition is_tag_or_blank :: "string \<Rightarrow> bool" where
  "is_tag_or_blank Line =
     ((startswith Line ''['' \<and> CHR '']'' \<in> set Line) \<or> strip Line = [])"

text \<open>
  A loop \<open>while StartIndex < len(Lines) and cond(Lines[StartIndex]): StartIndex += 1\<close>;
  its value is the index it stops at.
\<close>

function skip_while :: "(string \<Rightarrow> bool) \<Rightarrow> string list \<Rightarrow> nat \<Rightarrow> nat" where
  "skip_while cond Lines StartIndex =
     (if StartIndex < length Lines \<and> cond (Lines ! StartIndex)
      then skip_while cond Lines (StartIndex + 1)
      else StartIndex)"
  by pat_completeness auto
termination
  by (relation "measure (\<lambda>(cond, Lines, StartIndex). length Lines - StartIndex)") auto

declare skip_while.simps [simp del]

definition RemoveMetadataHeader :: "string \<Rightarrow> string" where
  "RemoveMetadataHeader Content =
     (let Lines = split NL Content;
          StartIndex = (if Lines \<noteq> [] \<and> startswith (Lines ! 0) ''# '' then 1 else 0);
          StartIndex = skip_while is_timestamp_or_blank Lines StartIndex;
          StartIndex = skip_while is_tag_or_blank Lines StartIndex
      in join NL (drop StartIndex Lines))"

text \<open>
  The header removal as the specification words it: after the title line, one run of
  lines that are a timestamp marker, a tag line or blank, in any order.
\<close>

definition RemoveMetadataHeader_spec :: "string \<Rightarrow> string" where
  "RemoveMetadataHeader_spec Content =
     (let Lines = split NL Content;
          Lines = (if Lines \<noteq> [] \<and> startswith (Lines ! 0) ''# '' then drop 1 Lines else Lines)
      in join NL (dropWhile (\<lambda>Line. is_timestamp_or_blank Line \<or> is_tag_or_blank Line) Lines))"

subsection \<open>ProcessJekyllIncompatibleContent\<close>

text \<open>
  Six whole-text replacements, one after the other, each on the result of the one
  before it.
\<close>

definition ProcessJekyllIncompatibleContent :: "string \<Rightarrow> string" where
  \<open>ProcessJekyllIncompatibleContent Content =
     (let Content = replace ''{% '' ''{{ "{% " }}'' Content;
          Content = replace ''{{ '' ''{{ "{{ " }}'' Content;
          Content = replace '' }}'' '' {{ "}}" }}'' Content;
          Content = replace '' %}'' '' {{ "%}" }}'' Content;
          Content = replace ''{{{'' ''&#123;&#123;&#123;'' Content;
          Content = replace ''}}}'' ''&#125;&#125;&#125;'' Content
      in Content)\<close>

section \<open>Core/MetadataExtractor.py\<close>

subsection \<open>Dates and the standard library's \<open>strptime\<close>\<close>

text \<open>The one exception the module raises and catches.\<close>

datatype py_error = ValueError

text \<open>
  A \<open>datetime\<close> value, with the checks of its constructor: a year from 1 to 9999, a
  month from 1 to 12, a day that the month has, an hour below 24, a minute below 60.
\<close>

record datetime =
  dt_year :: nat
  dt_month :: nat
  dt_day :: nat
  dt_hour :: nat
  dt_minute :: nat

definition is_leap :: "nat \<Rightarrow> bool" where
  "is_leap y = (y mod 4 = 0 \<and> (y mod 100 \<noteq> 0 \<or> y mod 400 = 0))"

definition days_in_month :: "nat \<Rightarrow> nat \<Rightarrow> nat" where
  "days_in_month y m =
     (if m = 2 then (if is_leap y then 29 else 28)
      else if m = 4 \<or> m = 6 \<or> m = 9 \<or> m = 11 then 30 else 31)"

definition make_datetime :: "nat \<Rightarrow> nat \<Rightarrow> nat \<Rightarrow> nat \<Rightarrow> nat \<Rightarrow> py_error + datetime" where
  "make_datetime y mo d h mi =
     (if 1 \<le> y \<and> y \<le> 9999 \<and> 1 \<le> mo \<and> mo \<le> 12 \<and> 1 \<le> d \<and> d \<le> days_in_month y mo
         \<and> h \<le> 23 \<and> mi \<le> 59
      then Inr \<lparr>dt_year = y, dt_month = mo, dt_day = d, dt_hour = h, dt_minute = mi\<rparr>
      else Inl ValueError)"

text \<open>\<open>int(s)\<close> on a string of digits, which may have white space around it.\<close>

definition int_of :: "string \<Rightarrow> nat" where
  "int_of s = foldl (\<lambda>n c. 10 * n + (of_char c - 48)) 0 (strip s)"

text \<open>
  Decimal digits of a number, and \<open>strftime("%Y-%m-%d")\<close>, which hands the format to
  the C library: the month and the day are padded to two digits, the year is written
  as it is, so the year 999 gives \<open>999-03-15\<close> (glibc); from the year 1000 on the year
  has its four digits.
\<close>

fun decimal :: "nat \<Rightarrow> string" where
  "decimal n = (if n < 10 then [char_of (48 + n)] else decimal (n div 10) @ [char_of (48 + n mod 10)])"

declare decimal.simps [simp del]

definition zero_pad :: "nat \<Rightarrow> nat \<Rightarrow> string" where
  "zero_pad w n = replicate (w - length (decimal n)) (CHR ''0'') @ decimal n"

definition strftime_Ymd :: "datetime \<Rightarrow> string" where
  "strftime_Ymd d = decimal (dt_year d) @ ''-'' @ zero_pad 2 (dt_month d) @ ''-'' @ zero_pad 2 (dt_day d)"

text \<open>
  \<open>datetime.strptime\<close> turns the format into a regular expression, matches it at the
  start of the text without regard to case, asks that the match reaches the end of the
  text, and builds the date from the groups. A format is cut into literal characters,
  runs of white space (each becomes \<open>\s+\<close>) and directives.
\<close>

datatype fmt_token = FLit char | FSpace | FDir char

function fmt_tokens :: "string \<Rightarrow> fmt_token list" where
  "fmt_tokens [] = []"
| "fmt_tokens [c] = [if isspace c then FSpace else FLit c]"
| "fmt_tokens (c # d # cs) =
     (if c = CHR ''%'' then FDir d # fmt_tokens cs
      else if isspace c then FSpace # fmt_tokens (dropWhile isspace (d # cs))
      else FLit c # fmt_tokens (d # cs))"
  by pat_completeness auto
termination
  by (relation "measure length")
     (auto simp: less_Suc_eq_le intro!: le_SucI length_dropWhile_le)

text \<open>
  The alternatives of a numeric directive, in the order the library tries them; each
  is a sequence of character classes. The month names and the day-part names are those
  of the C locale.
\<close>

definition DIGITS :: string where
  "DIGITS = ''0123456789''"

definition directive_alts :: "char \<Rightarrow> string list list" where
  "directive_alts d =
     (if d = CHR ''d'' then [[''3'', ''01''], [''12'', DIGITS], [''0'', ''123456789''],
                             [''123456789''], ['' '', ''123456789'']]
      else if d = CHR ''m'' then [[''1'', ''012''], [''0'', ''123456789''], [''123456789'']]
      else if d = CHR ''Y'' then [[DIGITS, DIGITS, DIGITS, DIGITS]]
      else if d = CHR ''H'' then [[''2'', ''0123''], [''01'', DIGITS], [DIGITS]]
      else if d = CHR ''I'' then [[''1'', ''012''], [''0'', ''123456789''], [''123456789'']]
      else if d = CHR ''M'' then [[''012345'', DIGITS], [DIGITS]]
      else [])"

definition month_names :: "string list" where
  "month_names = [''january'', ''february'', ''march'', ''april'', ''may'', ''june'', ''july'',
     ''august'', ''september'', ''october'', ''november'', ''december'']"

definition directive_words :: "char \<Rightarrow> string list" where
  "directive_words d =
     (if d = CHR ''B'' then month_names
      else if d = CHR ''p'' then [''am'', ''pm'']
      else [])"

fun match_classes :: "string list \<Rightarrow> string \<Rightarrow> (string \<times> string) option" where
  "match_classes [] s = Some ([], s)"
| "match_classes (cls # rest) [] = None"
| "match_classes (cls # rest) (c # cs) =
     (if c \<in> set cls then map_option (\<lambda>(g, r). (c # g, r)) (match_classes rest cs) else None)"

definition match_word :: "string \<Rightarrow> string \<Rightarrow> (string \<times> string) option" where
  "match_word w s =
     (if length w \<le> length s \<and> lower (take (length w) s) = w
      then Some (take (length w) s, drop (length w) s) else None)"

text \<open>
  A greedy run \<open>x{lo,}\<close> of a character class, with the shorter runs that backtracking
  would try after it: the ways to cut the text, longest run first.
\<close>

definition greedy_run :: "(char \<Rightarrow> bool) \<Rightarrow> nat \<Rightarrow> string \<Rightarrow> (string \<times> string) list" where
  "greedy_run P lo s =
     map (\<lambda>k. (take k s, drop k s)) (rev [lo ..< Suc (length (takeWhile P s))])"

text \<open>The ways one token of the format can match at the start of the text, in order.\<close>

definition token_alts :: "fmt_token \<Rightarrow> string \<Rightarrow> (string \<times> string) list" where
  "token_alts t s =
     (case t of
        FLit c \<Rightarrow> (case s of [] \<Rightarrow> [] | x # r \<Rightarrow> if lower_char x = lower_char c then [([x], r)] else [])
      | FSpace \<Rightarrow> greedy_run isspace 1 s
      | FDir d \<Rightarrow> List.map_filter (\<lambda>alt. match_classes alt s) (directive_alts d)
                   @ List.map_filter (\<lambda>w. match_word w s) (directive_words d))"

text \<open>
  All matches of the format's expression at the start of the text, in the order a
  backtracking matcher finds them, each with the groups it found (directive letter
  and matched text) and the text left over.
\<close>

fun regex_match :: "fmt_token list \<Rightarrow> (char \<times> string) list \<Rightarrow> string
    \<Rightarrow> ((char \<times> string) list \<times> string) list" where
  "regex_match [] found s = [(found, s)]"
| "regex_match (t # ts) found s =
     concat (map (\<lambda>(g, r). regex_match ts (case t of FDir d \<Rightarrow> (d, g) # found | _ \<Rightarrow> found) r)
                 (token_alts t s))"

text \<open>The number of a month name, from 1.\<close>

fun index_of :: "string \<Rightarrow> string list \<Rightarrow> nat" where
  "index_of w [] = 0"
| "index_of w (x # xs) = (if w = x then 0 else Suc (index_of w xs))"

text \<open>
  The date of the groups: a missing year is 1900, a missing month or day 1, a missing
  hour or minute 0; a 12-hour clock value is read with the day part, where no day part
  counts as \<open>am\<close>.
\<close>

definition datetime_of_found :: "(char \<times> string) list \<Rightarrow> py_error + datetime" where
  "datetime_of_found found =
     (let year = (case map_of found (CHR ''Y'') of Some y \<Rightarrow> int_of y | None \<Rightarrow> 1900);
          month = (case map_of found (CHR ''B'') of
                     Some b \<Rightarrow> Suc (index_of (lower b) month_names)
                   | None \<Rightarrow> (case map_of found (CHR ''m'') of Some m \<Rightarrow> int_of m | None \<Rightarrow> 1));
          day = (case map_of found (CHR ''d'') of Some d \<Rightarrow> int_of d | None \<Rightarrow> 1);
          ampm = (case map_of found (CHR ''p'') of Some p \<Rightarrow> lower p | None \<Rightarrow> []);
          hour = (case map_of found (CHR ''H'') of
                    Some h \<Rightarrow> int_of h
                  | None \<Rightarrow>
                      (case map_of found (CHR ''I'') of
                         Some i \<Rightarrow>
                           (if ampm = [] \<or> ampm = ''am''
                            then (if int_of i = 12 then 0 else int_of i)
                            else (if int_of i \<noteq> 12 then int_of i + 12 else int_of i))
                       | None \<Rightarrow> 0));
          minute = (case map_of found (CHR ''M'') of Some m \<Rightarrow> int_of m | None \<Rightarrow> 0)
      in make_datetime year month day hour minute)"

definition strptime :: "string \<Rightarrow> string \<Rightarrow> py_error + datetime" where
  "strptime data_string format =
     (case regex_match (fmt_tokens format) [] data_string of
        [] \<Rightarrow> Inl ValueError
      | (found, rest) # _ \<Rightarrow> if rest \<noteq> [] then Inl ValueError else datetime_of_found found)"

subsection \<open>ParseTimestamp\<close>

definition Formats :: "string list" where
  "Formats = [''%B %d, %Y %I:%M %p'', ''%B %d, %Y  %I:%M%p'', ''%B %d, %Y  %I:%M %p'',
     ''%Y-%m-%d %H:%M'', ''%Y-%m-%d'']"

text \<open>The loop over the formats: the first that parses gives the result.\<close>

fun try_formats :: "string list \<Rightarrow> string \<Rightarrow> datetime option" where
  "try_formats [] TimestampStr = None"
| "try_formats (Format # Rest) TimestampStr =
     (case strptime TimestampStr Format of
        Inr d \<Rightarrow> Some d
      | Inl e \<Rightarrow> try_formats Rest TimestampStr)"

text \<open>
  The tolerant pattern
  \<open>([A-Z][a-z]+)\s+(\d{1,2}),?\s+(\d{4})\s+(\d{1,2}):(\d{2})\s*([AP]M)?\<close>, tried at the
  start of the text with \<open>re.match\<close>. Its greedy pieces can give characters back, so
  the matches are listed in the order of the backtracking search; the groups of the
  first one are the result.
\<close>

definition is_upper :: "char \<Rightarrow> bool" where
  "is_upper c = (let n = (of_char c :: nat) in 65 \<le> n \<and> n \<le> 90)"

definition is_lower :: "char \<Rightarrow> bool" where
  "is_lower c = (let n = (of_char c :: nat) in 97 \<le> n \<and> n \<le> 122)"

definition month_word :: "string \<Rightarrow> (string \<times> string) list" where
  "month_word s =
     (case s of
        [] \<Rightarrow> []
      | c # r \<Rightarrow> if is_upper c then map (\<lambda>(g, r'). (c # g, r')) (greedy_run is_lower 1 r) else [])"

definition digits_1_2 :: "string \<Rightarrow> (string \<times> string) list" where
  "digits_1_2 s =
     map (\<lambda>k. (take k s, drop k s)) (rev [1 ..< Suc (min 2 (length (takeWhile isdigit s)))])"

definition digits_exact :: "nat \<Rightarrow> string \<Rightarrow> (string \<times> string) list" where
  "digits_exact n s = (case digits_n n s of None \<Rightarrow> [] | Some gr \<Rightarrow> [gr])"

definition opt_comma :: "string \<Rightarrow> string list" where
  "opt_comma s = (case s of [] \<Rightarrow> [s] | c # r \<Rightarrow> if c = CHR '','' then [r, s] else [s])"

definition colon :: "string \<Rightarrow> string list" where
  "colon s = (case s of [] \<Rightarrow> [] | c # r \<Rightarrow> if c = CHR '':'' then [r] else [])"

definition opt_ampm :: "string \<Rightarrow> (string option \<times> string) list" where
  "opt_ampm s =
     (case s of
        a # m # r \<Rightarrow>
          if (a = CHR ''A'' \<or> a = CHR ''P'') \<and> m = CHR ''M'' then [(Some [a, m], r), (None, s)]
          else [(None, s)]
      | _ \<Rightarrow> [(None, s)])"

definition FallbackMatches ::
    "string \<Rightarrow> (string \<times> string \<times> string \<times> string \<times> string \<times> string option) list" where
  "FallbackMatches s =
     [(Month, Day, Year, Hour, Minute, AMPM).
        (Month, r) \<leftarrow> month_word s,
        (sp1, r) \<leftarrow> greedy_run isspace 1 r,
        (Day, r) \<leftarrow> digits_1_2 r,
        r \<leftarrow> opt_comma r,
        (sp2, r) \<leftarrow> greedy_run isspace 1 r,
        (Year, r) \<leftarrow> digits_exact 4 r,
        (sp3, r) \<leftarrow> greedy_run isspace 1 r,
        (Hour, r) \<leftarrow> digits_1_2 r,
        r \<leftarrow> colon r,
        (Minute, r) \<leftarrow> digits_exact 2 r,
        (sp4, r) \<leftarrow> greedy_run isspace 0 r,
        (AMPM, r) \<leftarrow> opt_ampm r]"

text \<open>The dictionary of month names in \<open>ParseTimestamp\<close>.\<close>

definition MonthNum :: "string \<rightharpoonup> nat" where
  "MonthNum = map_of [(''January'', 1), (''February'', 2), (''March'', 3), (''April'', 4),
     (''May'', 5), (''June'', 6), (''July'', 7), (''August'', 8), (''September'', 9),
     (''October'', 10), (''November'', 11), (''December'', 12)]"

text \<open>The hour of the tolerant pattern after its AM/PM handling.\<close>

definition fallback_hour :: "string option \<Rightarrow> nat \<Rightarrow> nat" where
  "fallback_hour AMPM Hour =
     (if AMPM = Some ''PM'' \<and> Hour < 12 then Hour + 12
      else if AMPM = Some ''AM'' \<and> Hour = 12 then 0
      else Hour)"

definition ParseFallback :: "string \<Rightarrow> py_error + datetime" where
  "ParseFallback TimestampStr =
     (case FallbackMatches TimestampStr of
        [] \<Rightarrow> Inl ValueError
      | (Month, Day, Year, Hour, Minute, AMPM) # _ \<Rightarrow>
          (case MonthNum Month of
             None \<Rightarrow> Inl ValueError
           | Some MonthNumber \<Rightarrow>
               make_datetime (int_of Year) MonthNumber (int_of Day)
                 (fallback_hour AMPM (int_of Hour)) (int_of Minute)))"

definition ParseTimestamp :: "string \<Rightarrow> py_error + datetime" where
  "ParseTimestamp TimestampStr =
     (case try_formats Formats TimestampStr of
        Some d \<Rightarrow> Inr d
      | None \<Rightarrow> ParseFallback TimestampStr)"

subsection \<open>ExtractMetadata\<close>

text \<open>
  \<open>re.search\<close> of a pattern that starts with \<open>^\<close> under the multi-line flag: the
  pattern is tried at the start of the text and after every line feed.
\<close>

fun re_search_lines :: "'g pattern \<Rightarrow> bool \<Rightarrow> string \<Rightarrow> 'g option" where
  "re_search_lines p bol [] = (if bol then map_option fst (p []) else None)"
| "re_search_lines p bol (c # cs) =
     (case (if bol then p (c # cs) else None) of
        Some (g, r) \<Rightarrow> Some g
      | None \<Rightarrow> re_search_lines p (c = NL) cs)"

text \<open>
  \<open># (.+?)$\<close> after the \<open>^\<close>: the dot takes no line feed and \<open>$\<close> holds only at the
  end of a line, so the group is the rest of the line, at least one character.
\<close>

definition TitlePattern :: "string pattern" where
  "TitlePattern s = do {
     r \<leftarrow> lit ''# '' s;
     if takeWhile (\<lambda>c. c \<noteq> NL) r = [] then None
     else Some (takeWhile (\<lambda>c. c \<noteq> NL) r, dropWhile (\<lambda>c. c \<noteq> NL) r) }"

text \<open>
  \<open>(.+?)\<close> followed by a literal: the shortest run of at least one character, none of
  them a line feed, after which the literal stands.
\<close>

fun dot_lazy :: "string \<Rightarrow> string \<Rightarrow> string \<Rightarrow> (string \<times> string) option" where
  "dot_lazy stop acc [] = None"
| "dot_lazy stop acc (c # cs) =
     (if c = NL then None
      else if startswith cs stop then Some (acc @ [c], drop (length stop) cs)
      else dot_lazy stop (acc @ [c]) cs)"

definition CreatedPattern :: "string pattern" where
  "CreatedPattern s = do { r \<leftarrow> lit ''**Created: '' s; dot_lazy ''**'' [] r }"

definition ModifiedPattern :: "string pattern" where
  "ModifiedPattern s = do { r \<leftarrow> lit ''**Last Modified: '' s; dot_lazy ''**'' [] r }"

text \<open>
  \<open>\[([^:\]]+): ([^\]]+)\]\<close>: the key is the longest run without colon and closing
  bracket, the value the longest run without closing bracket.
\<close>

definition ContextPattern :: "(string \<times> string) pattern" where
  "ContextPattern s = do {
     r \<leftarrow> lit ''['' s;
     let Key = takeWhile (\<lambda>c. c \<noteq> CHR '':'' \<and> c \<noteq> CHR '']'') r;
     r \<leftarrow> (if Key = [] then None else Some (drop (length Key) r));
     r \<leftarrow> lit '': '' r;
     let Value = takeWhile (\<lambda>c. c \<noteq> CHR '']'') r;
     r \<leftarrow> (if Value = [] then None else Some (drop (length Value) r));
     r \<leftarrow> lit '']'' r;
     Some ((Key, Value), r) }"

type_synonym metadata = "string \<rightharpoonup> string"

text \<open>
  The inner \<open>try\<close> blocks: parse the stored text and store the normalized date; on any
  exception, \<open>pass\<close>.
\<close>

definition try_normalized_date :: "string \<Rightarrow> string \<Rightarrow> metadata \<Rightarrow> py_error + metadata" where
  "try_normalized_date source target Metadata =
     (case ParseTimestamp (case Metadata source of Some v \<Rightarrow> v | None \<Rightarrow> []) of
        Inl e \<Rightarrow> Inl e
      | Inr d \<Rightarrow> Inr (Metadata(target \<mapsto> strftime_Ymd d)))"

definition except_pass :: "metadata \<Rightarrow> py_error + metadata \<Rightarrow> metadata" where
  "except_pass Metadata attempt = (case attempt of Inl e \<Rightarrow> Metadata | Inr Metadata' \<Rightarrow> Metadata')"

text \<open>The five blocks of the outer \<open>try\<close>, each from the metadata so far to the metadata after it.\<close>

definition extract_title :: "string \<Rightarrow> metadata \<Rightarrow> py_error + metadata" where
  "extract_title Content Metadata =
     (case re_search_lines TitlePattern True Content of
        Some g \<Rightarrow> Inr (Metadata(''title'' \<mapsto> strip g))
      | None \<Rightarrow> Inr Metadata)"

definition extract_created :: "string \<Rightarrow> metadata \<Rightarrow> py_error + metadata" where
  "extract_created Content Metadata =
     (case re_search CreatedPattern Content of
        Some g \<Rightarrow>
          (let Metadata = Metadata(''created_at'' \<mapsto> strip g)
           in Inr (except_pass Metadata (try_normalized_date ''created_at'' ''created_date'' Metadata)))
      | None \<Rightarrow> Inr Metadata)"

definition extract_modified :: "string \<Rightarrow> metadata \<Rightarrow> py_error + metadata" where
  "extract_modified Content Metadata =
     (case re_search ModifiedPattern Content of
        Some g \<Rightarrow>
          (let Metadata = Metadata(''modified_at'' \<mapsto> strip g)
           in Inr (except_pass Metadata (try_normalized_date ''modified_at'' ''modified_date'' Metadata)))
      | None \<Rightarrow> Inr Metadata)"

definition extract_context :: "string \<Rightarrow> metadata \<Rightarrow> py_error + metadata" where
  "extract_context Content Metadata =
     Inr (foldl (\<lambda>M (Key, Value). M(lower Key \<mapsto> strip Value)) Metadata
            (re_finditer ContextPattern Content))"

definition extract_doc_number :: "string \<Rightarrow> metadata \<Rightarrow> py_error + metadata" where
  "extract_doc_number Content Metadata =
     (case re_search doc_id Content of
        Some g \<Rightarrow> Inr (Metadata(''doc_number'' \<mapsto> g))
      | None \<Rightarrow> Inr Metadata)"

text \<open>
  The outer \<open>try\<close>: the blocks run in order on the metadata so far; an exception that
  leaves a block ends the run, and the metadata gathered up to there is what the
  function returns (with the exception, for the log).
\<close>

fun run_blocks :: "(metadata \<Rightarrow> py_error + metadata) list \<Rightarrow> metadata \<Rightarrow> metadata \<times> py_error option" where
  "run_blocks [] Metadata = (Metadata, None)"
| "run_blocks (block # rest) Metadata =
     (case block Metadata of
        Inl e \<Rightarrow> (Metadata, Some e)
      | Inr Metadata' \<Rightarrow> run_blocks rest Metadata')"

definition ExtractMetadata_try :: "string \<Rightarrow> metadata \<times> py_error option" where
  "ExtractMetadata_try Content =
     run_blocks [extract_title Content, extract_created Content, extract_modified Content,
                 extract_context Content, extract_doc_number Content] Map.empty"

definition ExtractMetadata :: "string \<Rightarrow> metadata" where
  "ExtractMetadata Content = fst (ExtractMetadata_try Content)"

section \<open>Notions used in the proofs\<close>

text \<open>
  A text that is empty or starts with an opening bracket: what follows the place where
  a reference tag may be cut from the text before it.
\<close>

definition bnd :: "string \<Rightarrow> bool" where
  "bnd ys = (case ys of [] \<Rightarrow> True | y # _ \<Rightarrow> y = CHR ''['')"

text \<open>What one context tag stores in the metadata.\<close>

definition store_tag :: "metadata \<Rightarrow> string \<times> string \<Rightarrow> metadata" where
  "store_tag M kv = (case kv of (Key, Value) \<Rightarrow> M(lower Key \<mapsto> strip Value))"

text \<open>The metadata after the first three blocks.\<close>

definition header_metadata :: "string \<Rightarrow> metadata" where
  "header_metadata Content =
     (case extract_title Content Map.empty of
        Inl e \<Rightarrow> Map.empty
      | Inr M1 \<Rightarrow>
          (case extract_created Content M1 of
             Inl e \<Rightarrow> M1
           | Inr M2 \<Rightarrow> (case extract_modified Content M2 of Inl e \<Rightarrow> M2 | Inr M3 \<Rightarrow> M3)))"

text \<open>
  A text in which every opening bracket is followed, somewhere later, by a closing
  bracket. A match of the tag pattern begins at an opening bracket and ends at the
  first closing bracket after it, so in such a text no match reaches past the end.
\<close>

fun brackets_closed :: "string \<Rightarrow> bool" where
  "brackets_closed [] = True"
| "brackets_closed (c # cs) =
     (if c = CHR ''['' then CHR '']'' \<in> set cs \<and> brackets_closed cs else brackets_closed cs)"

section \<open>An example registry\<close>

definition example_registry :: registry where
  "example_registry =
     [(''10-20'', [''title'' \<mapsto> ''Project Vision'', ''url'' \<mapsto> ''/docs/vision/10-20/'']),
      (''60-10'', [''title'' \<mapsto> ''DECISION-20250101-1 Naming'', ''url'' \<mapsto> ''/docs/governance/60-10/''])]"

section \<open>Proofs: the cross-reference resolver\<close>

subsection \<open>The patterns look only at their own match\<close>

lemma isdigit_simps [simp]:
  "\<not> isdigit (CHR ''['')" "\<not> isdigit (CHR '']'')" "\<not> isdigit (CHR ''-'')"
  "\<not> isdigit (CHR ''.'')" "\<not> isdigit (CHR '' '')" "\<not> isdigit (CHR ''D'')"
  "\<not> isdigit SECTION_SIGN"
  by (simp_all add: isdigit_def SECTION_SIGN_def)

lemma lit_Nil [simp]: "lit [] s = Some s"
  by (simp add: lit_def startswith_def)

lemma lit_Cons_Nil [simp]: "lit (x # p) [] = None"
  by (simp add: lit_def startswith_def)

lemma lit_Cons_Cons [simp]: "lit (x # p) (c # s) = (if c = x then lit p s else None)"
  by (simp add: lit_def startswith_def)

lemma lit_append:
  "bnd ys \<Longrightarrow> CHR ''['' \<notin> set p \<Longrightarrow> p \<noteq> [] \<Longrightarrow>
     lit p (u @ ys) = map_option (\<lambda>r. r @ ys) (lit p u)"
proof (induction p arbitrary: u)
  case Nil
  then show ?case by simp
next
  case (Cons x p)
  show ?case
  proof (cases u)
    case Nil
    with Cons.prems show ?thesis by (cases ys) (auto simp: bnd_def)
  next
    case (Cons c cs)
    show ?thesis
    proof (cases p)
      case Nil
      with Cons show ?thesis by simp
    next
      case (Cons y q)
      with Cons.IH [of cs] Cons.prems \<open>u = c # cs\<close> show ?thesis by simp
    qed
  qed
qed

lemma takeWhile_digit_bnd:
  "bnd ys \<Longrightarrow> takeWhile isdigit (u @ ys) = takeWhile isdigit u"
  by (induction u) (auto simp: bnd_def split: list.splits)

lemma dropWhile_digit_bnd:
  "bnd ys \<Longrightarrow> dropWhile isdigit (u @ ys) = dropWhile isdigit u @ ys"
  by (induction u) (auto simp: bnd_def split: list.splits)

lemma digits1_append:
  "bnd ys \<Longrightarrow> digits1 (u @ ys) = map_option (\<lambda>(g, r). (g, r @ ys)) (digits1 u)"
  by (simp add: digits1_def takeWhile_digit_bnd dropWhile_digit_bnd)

lemma digits_n_Suc_Cons [simp]:
  "digits_n (Suc n) (c # s) =
     (if isdigit c then map_option (\<lambda>(g, r). (c # g, r)) (digits_n n s) else None)"
  by (auto simp: digits_n_def)

lemma digits_n_Suc_Nil [simp]: "digits_n (Suc n) [] = None"
  by (simp add: digits_n_def)

lemma digits_n_0 [simp]: "digits_n 0 s = Some ([], s)"
  by (simp add: digits_n_def)

lemma digits_n_append:
  "bnd ys \<Longrightarrow> digits_n n (u @ ys) = map_option (\<lambda>(g, r). (g, r @ ys)) (digits_n n u)"
proof (induction n arbitrary: u)
  case 0
  then show ?case by simp
next
  case (Suc n)
  show ?case
  proof (cases u)
    case Nil
    with Suc.prems show ?thesis by (cases ys) (auto simp: bnd_def)
  next
    case (Cons c cs)
    with Suc.IH [of cs] Suc.prems show ?thesis
      by (cases "digits_n n cs") auto
  qed
qed

lemma doc_id_append:
  "bnd ys \<Longrightarrow> doc_id (u @ ys) = map_option (\<lambda>(g, r). (g, r @ ys)) (doc_id u)"
  by (auto simp: doc_id_def digits_n_append lit_append split: Option.bind_splits)

lemma DocRefPattern_append:
  "bnd ys \<Longrightarrow> u \<noteq> [] \<Longrightarrow>
     DocRefPattern (u @ ys) = map_option (\<lambda>(g, r). (g, r @ ys)) (DocRefPattern u)"
  by (cases u) (auto simp: DocRefPattern_def doc_id_append lit_append split: Option.bind_splits)

lemma SectionRefPattern_append:
  "bnd ys \<Longrightarrow> u \<noteq> [] \<Longrightarrow>
     SectionRefPattern (u @ ys) = map_option (\<lambda>(g, r). (g, r @ ys)) (SectionRefPattern u)"
  by (cases u)
     (auto simp: SectionRefPattern_def doc_id_append lit_append digits1_append SECTION_SIGN_def
           split: Option.bind_splits)

lemma DecisionRefPattern_append:
  "bnd ys \<Longrightarrow> u \<noteq> [] \<Longrightarrow>
     DecisionRefPattern (u @ ys) = map_option (\<lambda>(g, r). (g, r @ ys)) (DecisionRefPattern u)"
  by (cases u)
     (auto simp: DecisionRefPattern_def digits_n_append lit_append digits1_append
           split: Option.bind_splits)

subsection \<open>Scanning a text in pieces\<close>

lemma re_sub_append:
  assumes loc: "\<And>u. u \<noteq> [] \<Longrightarrow> p (u @ ys) = map_option (\<lambda>(g, r). (g, r @ ys)) (p u)"
    and nil: "p [] = None"
  shows "re_sub p f (xs @ ys) = re_sub p f xs @ re_sub p f ys"
proof (induction xs rule: length_induct)
  case (1 xs)
  show ?case
  proof (cases xs)
    case Nil
    then show ?thesis by (simp add: nil)
  next
    case (Cons c cs)
    have pc: "p (c # cs @ ys) = map_option (\<lambda>(g, r). (g, r @ ys)) (p (c # cs))"
      using loc [of "c # cs"] by simp
    show ?thesis
    proof (cases "p (c # cs)")
      case None
      with pc Cons "1.IH" show ?thesis by simp
    next
      case (Some gr)
      obtain g r where gr: "gr = (g, r)" by (cases gr)
      show ?thesis
      proof (cases "length r < length (c # cs)")
        case True
        with "1.IH" Cons have "re_sub p f (r @ ys) = re_sub p f r @ re_sub p f ys" by simp
        moreover have "take (Suc (length cs) - length r) (c # cs @ ys)
            = take (Suc (length cs) - length r) (c # cs)"
          using take_append [of "Suc (length cs) - length r" "c # cs" ys] by simp
        ultimately show ?thesis using True Some gr pc Cons by simp
      next
        case False
        with "1.IH" Cons have "re_sub p f (cs @ ys) = re_sub p f cs @ re_sub p f ys" by simp
        with False Some gr pc Cons show ?thesis by simp
      qed
    qed
  qed
qed

lemma re_sub_copy:
  assumes first: "\<And>s g r. p s = Some (g, r) \<Longrightarrow> bnd s \<and> s \<noteq> []"
  shows "CHR ''['' \<notin> set cs \<Longrightarrow> re_sub p f (cs @ B) = cs @ re_sub p f B"
proof (induction cs)
  case Nil
  then show ?case by simp
next
  case (Cons c cs)
  have "p (c # cs @ B) = None"
  proof (cases "p (c # cs @ B)")
    case None
    then show ?thesis .
  next
    case (Some gr)
    then have "bnd (c # cs @ B)" using first [of "c # cs @ B" "fst gr" "snd gr"] by simp
    with Cons.prems show ?thesis by (simp add: bnd_def)
  qed
  with Cons show ?case by simp
qed

lemma re_sub_skip:
  assumes first: "\<And>s g r. p s = Some (g, r) \<Longrightarrow> bnd s \<and> s \<noteq> []"
    and "p (c # cs @ B) = None" and "CHR ''['' \<notin> set cs"
  shows "re_sub p f (c # cs @ B) = c # cs @ re_sub p f B"
  using assms(2,3) re_sub_copy [of p cs f B, OF first] by simp

lemma re_sub_hit:
  assumes "p (c # cs @ B) = Some (g, B)"
  shows "re_sub p f (c # cs @ B) = f (c # cs) g @ re_sub p f B"
  using assms by simp

lemma DocRefPattern_first: "DocRefPattern s = Some (g, r) \<Longrightarrow> bnd s \<and> s \<noteq> []"
  by (cases s) (auto simp: DocRefPattern_def bnd_def split: if_splits)

lemma SectionRefPattern_first: "SectionRefPattern s = Some (g, r) \<Longrightarrow> bnd s \<and> s \<noteq> []"
  by (cases s) (auto simp: SectionRefPattern_def bnd_def split: if_splits)

lemma DecisionRefPattern_first: "DecisionRefPattern s = Some (g, r) \<Longrightarrow> bnd s \<and> s \<noteq> []"
  by (cases s) (auto simp: DecisionRefPattern_def bnd_def split: if_splits)

lemma DocRefPattern_Nil [simp]: "DocRefPattern [] = None"
  by (simp add: DocRefPattern_def)

lemma SectionRefPattern_Nil [simp]: "SectionRefPattern [] = None"
  by (simp add: SectionRefPattern_def)

lemma DecisionRefPattern_Nil [simp]: "DecisionRefPattern [] = None"
  by (simp add: DecisionRefPattern_def)

subsection \<open>The patterns on the three kinds of reference tag\<close>

lemma is_doc_idE:
  assumes "is_doc_id s"
  obtains a b c d where "s = [a, b, CHR ''-'', c, d]"
    "isdigit a" "isdigit b" "isdigit c" "isdigit d"
  using assms by (auto simp: is_doc_id_def split: list.splits)

lemma doc_id_span: "is_doc_id s \<Longrightarrow> doc_id (s @ rest) = Some (s, rest)"
  by (erule is_doc_idE) (simp add: doc_id_def numeral_2_eq_2)

lemma digits1_span:
  "is_digits a \<Longrightarrow> \<not> isdigit x \<Longrightarrow> digits1 (a @ x # rest) = Some (a, x # rest)"
  by (cases a) (auto simp: is_digits_def digits1_def list_all_iff)

lemma digits_n_span:
  "list_all isdigit d \<Longrightarrow> digits_n (length d) (d @ rest) = Some (d, rest)"
  by (simp add: digits_n_def)

lemma bracket_not_in_doc_id: "is_doc_id s \<Longrightarrow> CHR ''['' \<notin> set s"
  by (erule is_doc_idE) auto

lemma bracket_not_in_digits: "list_all isdigit s \<Longrightarrow> CHR ''['' \<notin> set s"
  by (auto simp: list_all_iff)

lemma pass_hit:
  assumes loc: "\<And>u ys. bnd ys \<Longrightarrow> u \<noteq> [] \<Longrightarrow>
        p (u @ ys) = map_option (\<lambda>(g, r). (g, r @ ys)) (p u)"
    and nil: "p [] = None"
    and hit: "p (CHR ''['' # t @ B) = Some (g, B)"
  shows "re_sub p f (A @ CHR ''['' # t @ B) = re_sub p f A @ f (CHR ''['' # t) g @ re_sub p f B"
proof -
  have "re_sub p f (A @ (CHR ''['' # t @ B)) = re_sub p f A @ re_sub p f (CHR ''['' # t @ B)"
    by (rule re_sub_append [OF loc nil]) (simp add: bnd_def)
  with re_sub_hit [of p "CHR ''[''" t B g f] hit show ?thesis by simp
qed

lemma pass_skip:
  assumes loc: "\<And>u ys. bnd ys \<Longrightarrow> u \<noteq> [] \<Longrightarrow>
        p (u @ ys) = map_option (\<lambda>(g, r). (g, r @ ys)) (p u)"
    and nil: "p [] = None"
    and first: "\<And>s g r. p s = Some (g, r) \<Longrightarrow> bnd s \<and> s \<noteq> []"
    and miss: "p (CHR ''['' # t @ B) = None"
    and inner: "CHR ''['' \<notin> set t"
  shows "re_sub p f (A @ CHR ''['' # t @ B) = re_sub p f A @ CHR ''['' # t @ re_sub p f B"
proof -
  have "re_sub p f (A @ (CHR ''['' # t @ B)) = re_sub p f A @ re_sub p f (CHR ''['' # t @ B)"
    by (rule re_sub_append [OF loc nil]) (simp add: bnd_def)
  with re_sub_skip [of p "CHR ''[''" t B f, OF first miss inner] show ?thesis by simp
qed

text \<open>The three patterns at the start of a document reference.\<close>

lemma DocRefPattern_doc_span:
  "is_doc_id s \<Longrightarrow> DocRefPattern (CHR ''['' # (s @ '']'') @ B) = Some (s, B)"
  by (simp add: DocRefPattern_def doc_id_span)

lemma SectionRefPattern_doc_span:
  "is_doc_id s \<Longrightarrow> SectionRefPattern (CHR ''['' # (s @ '']'') @ B) = None"
  by (simp add: SectionRefPattern_def doc_id_span)

lemma DecisionRefPattern_doc_span:
  "is_doc_id s \<Longrightarrow> DecisionRefPattern (CHR ''['' # (s @ '']'') @ B) = None"
  by (erule is_doc_idE) (auto simp: DecisionRefPattern_def)

text \<open>The three patterns at the start of a section reference.\<close>

lemma DocRefPattern_sec_span:
  "is_doc_id s \<Longrightarrow>
     DocRefPattern (CHR ''['' # (s @ [CHR '' '', SECTION_SIGN] @ a @ ''.'' @ b @ '']'') @ B) = None"
  by (simp add: DocRefPattern_def doc_id_span)

lemma SectionRefPattern_sec_span:
  "is_doc_id s \<Longrightarrow> is_digits a \<Longrightarrow> is_digits b \<Longrightarrow>
     SectionRefPattern (CHR ''['' # (s @ [CHR '' '', SECTION_SIGN] @ a @ ''.'' @ b @ '']'') @ B)
       = Some ((s, a @ ''.'' @ b), B)"
  by (simp add: SectionRefPattern_def doc_id_span digits1_span)

lemma DecisionRefPattern_sec_span:
  "is_doc_id s \<Longrightarrow>
     DecisionRefPattern (CHR ''['' # (s @ [CHR '' '', SECTION_SIGN] @ a @ ''.'' @ b @ '']'') @ B)
       = None"
  by (erule is_doc_idE) (auto simp: DecisionRefPattern_def)

text \<open>The three patterns at the start of a decision reference.\<close>

lemma DocRefPattern_dec_span:
  "DocRefPattern (CHR ''['' # (''DECISION-'' @ d @ ''-'' @ n @ '']'') @ B) = None"
  by (simp add: DocRefPattern_def doc_id_def numeral_2_eq_2)

lemma SectionRefPattern_dec_span:
  "SectionRefPattern (CHR ''['' # (''DECISION-'' @ d @ ''-'' @ n @ '']'') @ B) = None"
  by (simp add: SectionRefPattern_def doc_id_def numeral_2_eq_2)

lemma DecisionRefPattern_dec_span:
  "length d = 8 \<Longrightarrow> list_all isdigit d \<Longrightarrow> is_digits n \<Longrightarrow>
     DecisionRefPattern (CHR ''['' # (''DECISION-'' @ d @ ''-'' @ n @ '']'') @ B)
       = Some (''DECISION-'' @ d @ ''-'' @ n, B)"
  using digits_n_span [of d "''-'' @ n @ '']'' @ B"]
  by (simp add: DecisionRefPattern_def digits1_span)

subsection \<open>One pass over a text around a reference tag\<close>

lemma ReplaceDocRef_unresolved:
  "map_of R DocID = None \<Longrightarrow> ReplaceDocRef R g0 DocID = g0"
  by (simp add: ReplaceDocRef_def)

lemma ReplaceSectionRef_unresolved:
  "map_of R DocID = None \<Longrightarrow> ReplaceSectionRef R g0 (DocID, Section) = g0"
  by (simp add: ReplaceSectionRef_def)

lemma doc_span_passes:
  assumes "is_doc_id s"
  shows "re_sub DocRefPattern f (A @ CHR ''['' # (s @ '']'') @ B)
           = re_sub DocRefPattern f A @ f (CHR ''['' # s @ '']'') s @ re_sub DocRefPattern f B"
    and "re_sub SectionRefPattern f' (A @ CHR ''['' # (s @ '']'') @ B)
           = re_sub SectionRefPattern f' A @ CHR ''['' # (s @ '']'') @ re_sub SectionRefPattern f' B"
    and "re_sub DecisionRefPattern f'' (A @ CHR ''['' # (s @ '']'') @ B)
           = re_sub DecisionRefPattern f'' A @ CHR ''['' # (s @ '']'') @ re_sub DecisionRefPattern f'' B"
proof -
  have inner: "CHR ''['' \<notin> set (s @ '']'')"
    using bracket_not_in_doc_id [OF assms] by simp
  show "re_sub DocRefPattern f (A @ CHR ''['' # (s @ '']'') @ B)
           = re_sub DocRefPattern f A @ f (CHR ''['' # s @ '']'') s @ re_sub DocRefPattern f B"
    using pass_hit [of DocRefPattern "s @ '']''" B s f A,
        OF DocRefPattern_append DocRefPattern_Nil DocRefPattern_doc_span [OF assms]]
    by simp
  show "re_sub SectionRefPattern f' (A @ CHR ''['' # (s @ '']'') @ B)
           = re_sub SectionRefPattern f' A @ CHR ''['' # (s @ '']'') @ re_sub SectionRefPattern f' B"
    by (rule pass_skip [OF SectionRefPattern_append SectionRefPattern_Nil
          SectionRefPattern_first SectionRefPattern_doc_span [OF assms] inner])
  show "re_sub DecisionRefPattern f'' (A @ CHR ''['' # (s @ '']'') @ B)
           = re_sub DecisionRefPattern f'' A @ CHR ''['' # (s @ '']'') @ re_sub DecisionRefPattern f'' B"
    by (rule pass_skip [OF DecisionRefPattern_append DecisionRefPattern_Nil
          DecisionRefPattern_first DecisionRefPattern_doc_span [OF assms] inner])
qed


lemma sec_span_passes:
  assumes "is_doc_id s" "is_digits a" "is_digits b"
  defines "t \<equiv> s @ [CHR '' '', SECTION_SIGN] @ a @ ''.'' @ b @ '']''"
  shows "re_sub DocRefPattern f (A @ CHR ''['' # t @ B)
           = re_sub DocRefPattern f A @ CHR ''['' # t @ re_sub DocRefPattern f B"
    and "re_sub SectionRefPattern f' (A @ CHR ''['' # t @ B)
           = re_sub SectionRefPattern f' A @ f' (CHR ''['' # t) (s, a @ ''.'' @ b)
               @ re_sub SectionRefPattern f' B"
    and "re_sub DecisionRefPattern f'' (A @ CHR ''['' # t @ B)
           = re_sub DecisionRefPattern f'' A @ CHR ''['' # t @ re_sub DecisionRefPattern f'' B"
proof -
  have inner: "CHR ''['' \<notin> set t"
    using bracket_not_in_doc_id [OF assms(1)] assms(2,3)
    by (auto simp: t_def is_digits_def list_all_iff SECTION_SIGN_def)
  show "re_sub DocRefPattern f (A @ CHR ''['' # t @ B)
           = re_sub DocRefPattern f A @ CHR ''['' # t @ re_sub DocRefPattern f B"
    unfolding t_def
    by (rule pass_skip [OF DocRefPattern_append DocRefPattern_Nil
          DocRefPattern_first DocRefPattern_sec_span [OF assms(1)] inner [unfolded t_def]])
  show "re_sub SectionRefPattern f' (A @ CHR ''['' # t @ B)
           = re_sub SectionRefPattern f' A @ f' (CHR ''['' # t) (s, a @ ''.'' @ b)
               @ re_sub SectionRefPattern f' B"
    unfolding t_def
    by (rule pass_hit [OF SectionRefPattern_append SectionRefPattern_Nil
          SectionRefPattern_sec_span [OF assms(1,2,3)]])
  show "re_sub DecisionRefPattern f'' (A @ CHR ''['' # t @ B)
           = re_sub DecisionRefPattern f'' A @ CHR ''['' # t @ re_sub DecisionRefPattern f'' B"
    unfolding t_def
    by (rule pass_skip [OF DecisionRefPattern_append DecisionRefPattern_Nil
          DecisionRefPattern_first DecisionRefPattern_sec_span [OF assms(1)] inner [unfolded t_def]])
qed

lemma dec_span_passes:
  assumes "length d = 8" "list_all isdigit d" "is_digits n"
  defines "t \<equiv> ''DECISION-'' @ d @ ''-'' @ n @ '']''"
  shows "re_sub DocRefPattern f (A @ CHR ''['' # t @ B)
           = re_sub DocRefPattern f A @ CHR ''['' # t @ re_sub DocRefPattern f B"
    and "re_sub SectionRefPattern f' (A @ CHR ''['' # t @ B)
           = re_sub SectionRefPattern f' A @ CHR ''['' # t @ re_sub SectionRefPattern f' B"
    and "re_sub DecisionRefPattern f'' (A @ CHR ''['' # t @ B)
           = re_sub DecisionRefPattern f'' A
               @ f'' (CHR ''['' # t) (''DECISION-'' @ d @ ''-'' @ n)
               @ re_sub DecisionRefPattern f'' B"
proof -
  have inner: "CHR ''['' \<notin> set t"
    using assms(2,3) by (auto simp: t_def is_digits_def list_all_iff)
  show "re_sub DocRefPattern f (A @ CHR ''['' # t @ B)
           = re_sub DocRefPattern f A @ CHR ''['' # t @ re_sub DocRefPattern f B"
    unfolding t_def
    by (rule pass_skip [OF DocRefPattern_append DocRefPattern_Nil
          DocRefPattern_first DocRefPattern_dec_span inner [unfolded t_def]])
  show "re_sub SectionRefPattern f' (A @ CHR ''['' # t @ B)
           = re_sub SectionRefPattern f' A @ CHR ''['' # t @ re_sub SectionRefPattern f' B"
    unfolding t_def
    by (rule pass_skip [OF SectionRefPattern_append SectionRefPattern_Nil
          SectionRefPattern_first SectionRefPattern_dec_span inner [unfolded t_def]])
  show "re_sub DecisionRefPattern f'' (A @ CHR ''['' # t @ B)
           = re_sub DecisionRefPattern f'' A
               @ f'' (CHR ''['' # t) (''DECISION-'' @ d @ ''-'' @ n)
               @ re_sub DecisionRefPattern f'' B"
    unfolding t_def
    by (rule pass_hit [OF DecisionRefPattern_append DecisionRefPattern_Nil
          DecisionRefPattern_dec_span [OF assms(1,2,3)]])
qed

subsection \<open>Unresolved references\<close>

text \<open>
  Claim C2. A document reference \<open>[DD-DD]\<close> or a section reference
  \<open>[DD-DD \<section>N.N]\<close> whose identifier is not a key of the registry comes out of
  \<open>ProcessCrossReferences\<close> exactly as it went in, wherever it stands: the text
  before it and the text after it are resolved as they would be on their own, and the
  tag is copied between them. The resolver is a total function, so no input makes it fail.
\<close>

theorem unresolved_reference_left_verbatim:
  assumes "is_doc_id DocID" and "map_of DocumentRegistry DocID = None"
  shows "ProcessCrossReferences (pre @ ''['' @ DocID @ '']'' @ post) DocumentRegistry
           = ProcessCrossReferences pre DocumentRegistry @ ''['' @ DocID @ '']''
               @ ProcessCrossReferences post DocumentRegistry
         \<and> (is_digits a \<and> is_digits b \<longrightarrow>
              ProcessCrossReferences
                  (pre @ ''['' @ DocID @ [CHR '' '', SECTION_SIGN] @ a @ ''.'' @ b @ '']'' @ post)
                  DocumentRegistry
                = ProcessCrossReferences pre DocumentRegistry
                    @ ''['' @ DocID @ [CHR '' '', SECTION_SIGN] @ a @ ''.'' @ b @ '']''
                    @ ProcessCrossReferences post DocumentRegistry)"
proof (intro conjI impI)
  show "ProcessCrossReferences (pre @ ''['' @ DocID @ '']'' @ post) DocumentRegistry
           = ProcessCrossReferences pre DocumentRegistry @ ''['' @ DocID @ '']''
               @ ProcessCrossReferences post DocumentRegistry"
    using doc_span_passes [OF assms(1)] assms(2)
    by (simp add: ProcessCrossReferences_def ReplaceDocRef_unresolved)
next
  assume "is_digits a \<and> is_digits b"
  then have a: "is_digits a" and b: "is_digits b" by simp_all
  show "ProcessCrossReferences
                  (pre @ ''['' @ DocID @ [CHR '' '', SECTION_SIGN] @ a @ ''.'' @ b @ '']'' @ post)
                  DocumentRegistry
                = ProcessCrossReferences pre DocumentRegistry
                    @ ''['' @ DocID @ [CHR '' '', SECTION_SIGN] @ a @ ''.'' @ b @ '']''
                    @ ProcessCrossReferences post DocumentRegistry"
    using sec_span_passes [OF assms(1) a b] assms(2)
    by (simp add: ProcessCrossReferences_def ReplaceSectionRef_unresolved)
qed

theorem unresolved_reference_left_verbatim_witness:
  "is_doc_id ''11-22'' \<and> map_of example_registry ''11-22'' = None
   \<and> is_digits ''3'' \<and> is_digits ''4''
   \<and> ProcessCrossReferences ''see [11-22] and [10-20]'' example_registry
       = ''see [11-22] and [10-20](/docs/vision/10-20/)''
   \<and> ProcessCrossReferences (''see [11-22 '' @ [SECTION_SIGN] @ ''3.4] and [10-20]'')
         example_registry
       = ''see [11-22 '' @ [SECTION_SIGN] @ ''3.4] and [10-20](/docs/vision/10-20/)''"
proof -
  have h1: "is_doc_id ''11-22''" by (simp add: is_doc_id_def isdigit_def)
  have h2: "map_of example_registry ''11-22'' = None" by (simp add: example_registry_def)
  have h3: "is_digits ''3'' \<and> is_digits ''4''" by (simp add: is_digits_def isdigit_def)
  have e1: "ProcessCrossReferences ''see '' example_registry = ''see ''" by code_simp
  have e2: "ProcessCrossReferences '' and [10-20]'' example_registry
      = '' and [10-20](/docs/vision/10-20/)''" by code_simp
  show ?thesis
    using unresolved_reference_left_verbatim
      [OF h1 h2, where pre = "''see ''" and post = "'' and [10-20]''"
          and a = "''3''" and b = "''4''"] h1 h2 h3 e1 e2
    by simp
qed

subsection \<open>Decision references\<close>

text \<open>The loop over the registry's items finds the first entry that qualifies.\<close>

lemma FindDecision_find:
  "FindDecision R D =
     map_option (\<lambda>(DocID, DocInfo).
         ''['' @ D @ '']('' @ dict_get DocInfo ''url'' [] @ ''#'' @ lower D @ '')'')
       (find (\<lambda>(DocID, DocInfo). startswith (dict_get DocInfo ''title'' []) ''DECISION''
                \<and> contains (dict_get DocInfo ''title'' []) D) R)"
proof (induction R)
  case Nil
  then show ?case by simp
next
  case (Cons e R)
  obtain DocID DocInfo where e: "e = (DocID, DocInfo)" by (cases e)
  show ?case unfolding e using Cons.IH by (simp add: Let_def)
qed

text \<open>
  Claim C4. A decision reference \<open>[DECISION-YYYYMMDD-N]\<close> is always rewritten to a
  link, wherever it stands in the text. If some registry entry has a title that starts
  with \<open>DECISION\<close> and contains the decision identifier, the link goes to the url of
  the first such entry, with the lowercased identifier as anchor; otherwise it goes to
  the fixed governance/decisions path, with the same anchor. The text before and after
  the tag is resolved as it would be on its own.
\<close>

theorem decision_reference_always_linked:
  assumes "length d = 8" and "list_all isdigit d" and "is_digits n"
  shows "let DecisionID = ''DECISION-'' @ d @ ''-'' @ n;
             Link = (case find (\<lambda>(DocID, DocInfo).
                            startswith (dict_get DocInfo ''title'' []) ''DECISION''
                            \<and> contains (dict_get DocInfo ''title'' []) DecisionID)
                          DocumentRegistry of
                       Some (DocID, DocInfo) \<Rightarrow>
                         ''['' @ DecisionID @ '']('' @ dict_get DocInfo ''url'' []
                           @ ''#'' @ lower DecisionID @ '')''
                     | None \<Rightarrow>
                         ''['' @ DecisionID
                           @ '']({{ site.baseurl }}/docs/governance/decisions/#''
                           @ lower DecisionID @ '')'')
         in ProcessCrossReferences (pre @ ''['' @ DecisionID @ '']'' @ post) DocumentRegistry
              = ProcessCrossReferences pre DocumentRegistry @ Link
                  @ ProcessCrossReferences post DocumentRegistry"
  using dec_span_passes [OF assms]
  by (simp add: ProcessCrossReferences_def ReplaceDecisionRef_def FindDecision_find
        split: option.splits)

theorem decision_reference_always_linked_witness:
  "length ''20250101'' = 8 \<and> list_all isdigit ''20250101'' \<and> is_digits ''1'' \<and> is_digits ''2''
   \<and> ProcessCrossReferences ''see [DECISION-20250101-1].'' example_registry
       = ''see [DECISION-20250101-1](/docs/governance/60-10/#decision-20250101-1).''
   \<and> ProcessCrossReferences ''see [DECISION-20250101-2].'' example_registry
       = ''see [DECISION-20250101-2]({{ site.baseurl }}/docs/governance/decisions/#decision-20250101-2).''"
proof -
  have h1: "length ''20250101'' = 8" by simp
  have h2: "list_all isdigit ''20250101''" by (simp add: isdigit_def)
  have h3: "is_digits ''1''" "is_digits ''2''" by (simp_all add: is_digits_def isdigit_def)
  have e1: "ProcessCrossReferences ''see '' example_registry = ''see ''" by code_simp
  have e2: "ProcessCrossReferences ''.'' example_registry = ''.''" by code_simp
  have l: "lower ''DECISION-20250101-1'' = ''decision-20250101-1''"
      "lower ''DECISION-20250101-2'' = ''decision-20250101-2''" by code_simp+
  show ?thesis
    using decision_reference_always_linked [OF h1 h2 h3(1), where pre = "''see ''"
          and post = "''.''" and DocumentRegistry = example_registry]
      decision_reference_always_linked [OF h1 h2 h3(2), where pre = "''see ''"
          and post = "''.''" and DocumentRegistry = example_registry]
      h1 h2 h3 e1 e2 l
    by (simp add: example_registry_def dict_get_def startswith_def)
qed

subsection \<open>Texts that a pass leaves as they are\<close>

lemma re_sub_unchanged:
  assumes suf: "\<And>s g r. p s = Some (g, r) \<Longrightarrow> \<exists>m. s = m @ r"
  shows "(\<And>g g0. g \<in> set (re_finditer p s) \<Longrightarrow> f g0 g = g0) \<Longrightarrow> re_sub p f s = s"
proof (induction s rule: length_induct)
  case (1 s)
  note same = "1.prems"
  show ?case
  proof (cases s)
    case Nil
    with same show ?thesis by (cases "p []") auto
  next
    case (Cons c cs)
    show ?thesis
    proof (cases "p (c # cs)")
      case None
      with Cons same have "\<And>g g0. g \<in> set (re_finditer p cs) \<Longrightarrow> f g0 g = g0" by simp
      with "1.IH" Cons have "re_sub p f cs = cs" by simp
      with None Cons show ?thesis by simp
    next
      case (Some gr)
      obtain g r where gr: "gr = (g, r)" by (cases gr)
      from suf [of "c # cs" g r] Some gr obtain m where m: "c # cs = m @ r" by auto
      have fg: "f g0 g = g0" for g0 using same [of g g0] Cons Some gr by simp
      show ?thesis
      proof (cases "length r < length (c # cs)")
        case True
        with Cons Some gr same have "\<And>g g0. g \<in> set (re_finditer p r) \<Longrightarrow> f g0 g = g0" by simp
        with "1.IH" Cons True have "re_sub p f r = r" by simp
        moreover have "take (length (c # cs) - length r) (c # cs) = m"
          unfolding m by simp
        moreover have "re_sub p f (c # cs)
            = f (take (length (c # cs) - length r) (c # cs)) g @ re_sub p f r"
          using True Some gr by simp
        ultimately have "re_sub p f (c # cs) = m @ r" using fg by simp
        with m Cons show ?thesis by simp
      next
        case False
        with Cons Some gr same have "\<And>g g0. g \<in> set (re_finditer p cs) \<Longrightarrow> f g0 g = g0" by simp
        with "1.IH" Cons have "re_sub p f cs = cs" by simp
        with False Some gr Cons fg show ?thesis by simp
      qed
    qed
  qed
qed

lemma lit_suffix: "lit p s = Some r \<Longrightarrow> \<exists>m. s = m @ r"
  by (auto simp: lit_def split: if_splits intro: exI [of _ "take (length p) s"])

lemma digits_n_suffix: "digits_n n s = Some (g, r) \<Longrightarrow> \<exists>m. s = m @ r"
  by (auto simp: digits_n_def split: if_splits intro: exI [of _ "take n s"])

lemma digits1_suffix: "digits1 s = Some (g, r) \<Longrightarrow> \<exists>m. s = m @ r"
  by (auto simp: digits1_def split: if_splits intro: exI [of _ "takeWhile isdigit s"])

lemma doc_id_suffix: "doc_id s = Some (g, r) \<Longrightarrow> \<exists>m. s = m @ r"
  unfolding doc_id_def
  by (fastforce split: Option.bind_splits dest!: lit_suffix digits_n_suffix)

lemma DocRefPattern_suffix: "DocRefPattern s = Some (g, r) \<Longrightarrow> \<exists>m. s = m @ r"
  unfolding DocRefPattern_def
  by (fastforce split: Option.bind_splits dest!: lit_suffix doc_id_suffix)

lemma SectionRefPattern_suffix: "SectionRefPattern s = Some (g, r) \<Longrightarrow> \<exists>m. s = m @ r"
  unfolding SectionRefPattern_def
  by (fastforce split: Option.bind_splits dest!: lit_suffix doc_id_suffix digits1_suffix)

lemma DecisionRefPattern_suffix: "DecisionRefPattern s = Some (g, r) \<Longrightarrow> \<exists>m. s = m @ r"
  unfolding DecisionRefPattern_def
  by (fastforce split: Option.bind_splits dest!: lit_suffix digits_n_suffix digits1_suffix)

subsection \<open>Running the resolver on resolved text\<close>

lemma doc_link_passes:
  assumes "is_doc_id s" and "CHR ''['' \<notin> set url"
  defines "t \<equiv> s @ '']('' @ url @ '')''"
  shows "re_sub SectionRefPattern f' (A @ CHR ''['' # t @ B)
           = re_sub SectionRefPattern f' A @ CHR ''['' # t @ re_sub SectionRefPattern f' B"
    and "re_sub DecisionRefPattern f'' (A @ CHR ''['' # t @ B)
           = re_sub DecisionRefPattern f'' A @ CHR ''['' # t @ re_sub DecisionRefPattern f'' B"
proof -
  have inner: "CHR ''['' \<notin> set t"
    using bracket_not_in_doc_id [OF assms(1)] assms(2) by (simp add: t_def)
  have m1: "SectionRefPattern (CHR ''['' # t @ B) = None"
    using doc_id_span [OF assms(1)] by (simp add: t_def SectionRefPattern_def)
  have m2: "DecisionRefPattern (CHR ''['' # t @ B) = None"
    using assms(1) by (auto simp: t_def DecisionRefPattern_def elim!: is_doc_idE)
  show "re_sub SectionRefPattern f' (A @ CHR ''['' # t @ B)
           = re_sub SectionRefPattern f' A @ CHR ''['' # t @ re_sub SectionRefPattern f' B"
    by (rule pass_skip [OF SectionRefPattern_append SectionRefPattern_Nil
          SectionRefPattern_first m1 inner])
  show "re_sub DecisionRefPattern f'' (A @ CHR ''['' # t @ B)
           = re_sub DecisionRefPattern f'' A @ CHR ''['' # t @ re_sub DecisionRefPattern f'' B"
    by (rule pass_skip [OF DecisionRefPattern_append DecisionRefPattern_Nil
          DecisionRefPattern_first m2 inner])
qed

lemma resolved_doc_reference:
  assumes "is_doc_id DocID" and "map_of R DocID = Some DocInfo"
    and "CHR ''['' \<notin> set (dict_get DocInfo ''url'' [])"
  shows "ProcessCrossReferences (pre @ ''['' @ DocID @ '']'' @ post) R
           = ProcessCrossReferences pre R
               @ ''['' @ DocID @ '']('' @ dict_get DocInfo ''url'' [] @ '')''
               @ ProcessCrossReferences post R"
  using doc_span_passes(1) [OF assms(1)] doc_link_passes [OF assms(1,3)] assms(2)
  by (simp add: ProcessCrossReferences_def ReplaceDocRef_def)

lemma unresolved_text_unchanged:
  assumes "\<forall>DocID \<in> set (re_finditer DocRefPattern t). map_of R DocID = None"
    and "\<forall>(DocID, Section) \<in> set (re_finditer SectionRefPattern t). map_of R DocID = None"
    and "re_finditer DecisionRefPattern t = []"
  shows "ProcessCrossReferences t R = t"
proof -
  have 1: "re_sub DocRefPattern (ReplaceDocRef R) t = t"
    by (rule re_sub_unchanged [OF DocRefPattern_suffix])
       (use assms(1) in \<open>auto simp: ReplaceDocRef_unresolved\<close>)
  have 2: "re_sub SectionRefPattern (ReplaceSectionRef R) t = t"
    by (rule re_sub_unchanged [OF SectionRefPattern_suffix])
       (use assms(2) in \<open>auto simp: ReplaceSectionRef_unresolved\<close>)
  have 3: "re_sub DecisionRefPattern (ReplaceDecisionRef R) t = t"
  proof (rule re_sub_unchanged [OF DecisionRefPattern_suffix])
    fix g g0
    assume "g \<in> set (re_finditer DecisionRefPattern t)"
    with assms(3) show "ReplaceDecisionRef R g0 g = g0" by simp
  qed
  show ?thesis by (simp add: ProcessCrossReferences_def 1 2 3)
qed

text \<open>
  Claim C1, as stated: a second run leaves resolved text as it is. It does not: the
  document pattern \<open>\[(\d{2}-\d{2})\]\<close> still matches the label of a generated link
  \<open>[10-20](url)\<close>, and the decision pattern the label of a decision link, so every
  run writes one more \<open>(url)\<close> after the label.
\<close>

theorem resolver_not_idempotent:
  "ProcessCrossReferences ''[10-20](/docs/vision/10-20/)'' example_registry
     = ''[10-20](/docs/vision/10-20/)(/docs/vision/10-20/)''
   \<and> ProcessCrossReferences
         (ProcessCrossReferences ''[10-20](/docs/vision/10-20/)'' example_registry)
         example_registry
     \<noteq> ProcessCrossReferences ''[10-20](/docs/vision/10-20/)'' example_registry
   \<and> ProcessCrossReferences
         ''[DECISION-20250101-1](/docs/governance/60-10/#decision-20250101-1)''
         example_registry
     = ''[DECISION-20250101-1](/docs/governance/60-10/#decision-20250101-1)(/docs/governance/60-10/#decision-20250101-1)''"
  by code_simp

text \<open>
  Claim C1, amended to what holds. The resolver returns a text unchanged when no
  document or section tag in it names a key of the registry and no decision tag occurs
  in it; and a document tag whose identifier is a key of the registry gets the link
  target written after it wherever it stands, also where a target already follows it
  (the url does not contain an opening bracket).
\<close>

theorem resolver_fixed_points:
  "((\<forall>DocID \<in> set (re_finditer DocRefPattern t). map_of R DocID = None)
      \<and> (\<forall>(DocID, Section) \<in> set (re_finditer SectionRefPattern t). map_of R DocID = None)
      \<and> re_finditer DecisionRefPattern t = []
      \<longrightarrow> ProcessCrossReferences t R = t)
   \<and> (is_doc_id DocID \<and> map_of R DocID = Some DocInfo
        \<and> CHR ''['' \<notin> set (dict_get DocInfo ''url'' [])
      \<longrightarrow> ProcessCrossReferences (pre @ ''['' @ DocID @ '']'' @ post) R
            = ProcessCrossReferences pre R
                @ ''['' @ DocID @ '']('' @ dict_get DocInfo ''url'' [] @ '')''
                @ ProcessCrossReferences post R)"
  using unresolved_text_unchanged [of t R] resolved_doc_reference [of DocID R DocInfo pre post]
  by blast

theorem resolver_fixed_points_witness:
  "re_finditer DocRefPattern ''see [11-22], not 10-20'' = [''11-22'']
   \<and> map_of example_registry ''11-22'' = None
   \<and> re_finditer SectionRefPattern ''see [11-22], not 10-20'' = []
   \<and> re_finditer DecisionRefPattern ''see [11-22], not 10-20'' = []
   \<and> ProcessCrossReferences ''see [11-22], not 10-20'' example_registry
       = ''see [11-22], not 10-20''
   \<and> is_doc_id ''10-20''
   \<and> map_of example_registry ''10-20''
       = Some [''title'' \<mapsto> ''Project Vision'', ''url'' \<mapsto> ''/docs/vision/10-20/'']
   \<and> ProcessCrossReferences ''[10-20](/docs/vision/10-20/)'' example_registry
       = ''[10-20](/docs/vision/10-20/)(/docs/vision/10-20/)''"
proof -
  have f1: "re_finditer DocRefPattern ''see [11-22], not 10-20'' = [''11-22'']" by code_simp
  have f2: "re_finditer SectionRefPattern ''see [11-22], not 10-20'' = []" by code_simp
  have f3: "re_finditer DecisionRefPattern ''see [11-22], not 10-20'' = []" by code_simp
  have h1: "is_doc_id ''10-20''" by (simp add: is_doc_id_def isdigit_def)
  have h2: "map_of example_registry ''10-20''
       = Some [''title'' \<mapsto> ''Project Vision'', ''url'' \<mapsto> ''/docs/vision/10-20/'']"
    by (simp add: example_registry_def)
  have h3: "dict_get [''title'' \<mapsto> ''Project Vision'', ''url'' \<mapsto> ''/docs/vision/10-20/''] ''url'' []
      = ''/docs/vision/10-20/''"
    by (simp add: dict_get_def)
  have h4: "map_of example_registry ''11-22'' = None" by (simp add: example_registry_def)
  have e1: "ProcessCrossReferences [] example_registry = []" by code_simp
  have e2: "ProcessCrossReferences ''(/docs/vision/10-20/)'' example_registry
      = ''(/docs/vision/10-20/)''" by code_simp
  show ?thesis
    using resolver_fixed_points [where t = "''see [11-22], not 10-20''" and R = example_registry
        and DocID = "''10-20''" and pre = "[]" and post = "''(/docs/vision/10-20/)''"
        and DocInfo = "[''title'' \<mapsto> ''Project Vision'', ''url'' \<mapsto> ''/docs/vision/10-20/'']"]
      f1 f2 f3 h1 h2 h3 h4 e1 e2
    by simp
qed

section \<open>Proofs: document identifiers from file names\<close>

subsection \<open>What the three patterns match\<close>

lemma is_doc_id_length: "is_doc_id s \<Longrightarrow> length s = 5"
  by (erule is_doc_idE) simp

lemma digits_2_Some_iff:
  "digits_n 2 s = Some (g, r) \<longleftrightarrow> (\<exists>a b. s = a # b # r \<and> g = [a, b] \<and> isdigit a \<and> isdigit b)"
proof (cases s)
  case Nil
  then show ?thesis by (simp add: numeral_2_eq_2)
next
  case (Cons a t)
  then show ?thesis by (cases t) (auto simp: numeral_2_eq_2)
qed

lemma lit_1_Some_iff: "lit [x] s = Some r \<longleftrightarrow> s = x # r"
  by (cases s) auto

lemma doc_id_Some_iff: "doc_id s = Some (g, r) \<longleftrightarrow> is_doc_id g \<and> s = g @ r"
proof
  assume "doc_id s = Some (g, r)"
  then show "is_doc_id g \<and> s = g @ r"
    by (auto simp: doc_id_def digits_2_Some_iff lit_1_Some_iff is_doc_id_def
          split: Option.bind_splits)
next
  assume "is_doc_id g \<and> s = g @ r"
  then show "doc_id s = Some (g, r)" by (simp add: doc_id_span)
qed

lemma lit_Some_iff: "lit p s = Some r \<longleftrightarrow> s = p @ r"
proof (induction p arbitrary: s)
  case Nil
  then show ?case by auto
next
  case (Cons x p)
  then show ?case by (cases s) auto
qed

lemma char_in_Some_iff: "char_in cls s = Some r \<longleftrightarrow> (\<exists>c. s = c # r \<and> c \<in> set cls)"
  by (cases s) (auto simp: char_in_def)

lemma eos_Some_iff: "eos s = Some r \<longleftrightarrow> r = s \<and> (s = [] \<or> s = [NL])"
  by (auto simp: eos_def)

lemma IdSeparatorPattern_Some_iff:
  "IdSeparatorPattern s = Some (g, r)
     \<longleftrightarrow> is_doc_id g \<and> (\<exists>c. s = g @ c # r \<and> c \<in> set ''- _'')"
proof
  assume "IdSeparatorPattern s = Some (g, r)"
  then show "is_doc_id g \<and> (\<exists>c. s = g @ c # r \<and> c \<in> set ''- _'')"
    by (auto simp: IdSeparatorPattern_def doc_id_Some_iff char_in_Some_iff
          split: Option.bind_splits)
next
  assume "is_doc_id g \<and> (\<exists>c. s = g @ c # r \<and> c \<in> set ''- _'')"
  then show "IdSeparatorPattern s = Some (g, r)"
    by (auto simp: IdSeparatorPattern_def doc_id_span char_in_def)
qed

lemma IdOnlyPattern_Some_iff:
  "IdOnlyPattern s = Some (g, r)
     \<longleftrightarrow> is_doc_id g \<and> s = g @ ''.md'' @ r \<and> (r = [] \<or> r = [NL])"
proof
  assume "IdOnlyPattern s = Some (g, r)"
  then show "is_doc_id g \<and> s = g @ ''.md'' @ r \<and> (r = [] \<or> r = [NL])"
    by (auto simp: IdOnlyPattern_def doc_id_Some_iff lit_Some_iff eos_Some_iff
          split: Option.bind_splits)
next
  assume "is_doc_id g \<and> s = g @ ''.md'' @ r \<and> (r = [] \<or> r = [NL])"
  then show "IdOnlyPattern s = Some (g, r)"
    by (auto simp: IdOnlyPattern_def doc_id_span eos_def)
qed

lemma IdSuffixPattern_Some_iff:
  "IdSuffixPattern s = Some (g, r)
     \<longleftrightarrow> is_doc_id g \<and> s = ''-'' @ g @ ''.md'' @ r \<and> (r = [] \<or> r = [NL])"
proof
  assume "IdSuffixPattern s = Some (g, r)"
  then show "is_doc_id g \<and> s = ''-'' @ g @ ''.md'' @ r \<and> (r = [] \<or> r = [NL])"
    by (auto simp: IdSuffixPattern_def doc_id_Some_iff lit_Some_iff eos_Some_iff
          split: Option.bind_splits)
next
  assume "is_doc_id g \<and> s = ''-'' @ g @ ''.md'' @ r \<and> (r = [] \<or> r = [NL])"
  then show "IdSuffixPattern s = Some (g, r)"
    by (auto simp: IdSuffixPattern_def doc_id_span eos_def)
qed

lemma starts_with_id_iff:
  "starts_with_id f \<longleftrightarrow> (\<exists>g r. IdSeparatorPattern f = Some (g, r))"
proof
  assume "starts_with_id f"
  then obtain c r where g: "is_doc_id (take 5 f)" and d: "drop 5 f = c # r" and c: "c \<in> set ''- _''"
    by (auto simp: starts_with_id_def split: list.splits)
  have "f = take 5 f @ c # r" using d append_take_drop_id [of 5 f] by simp
  with g c have "IdSeparatorPattern f = Some (take 5 f, r)"
    unfolding IdSeparatorPattern_Some_iff by blast
  then show "\<exists>g r. IdSeparatorPattern f = Some (g, r)" by blast
next
  assume "\<exists>g r. IdSeparatorPattern f = Some (g, r)"
  then obtain g r c where "is_doc_id g" "f = g @ c # r" "c \<in> set ''- _''"
    unfolding IdSeparatorPattern_Some_iff by blast
  then show "starts_with_id f"
    using is_doc_id_length [of g] by (simp add: starts_with_id_def)
qed

lemma stem_md:
  assumes "x \<noteq> []" and "r = [] \<or> r = [NL]"
  shows "stem (x @ ''.md'' @ r) = x"
  using assms by (auto simp: stem_def NL_def Let_def)

lemma IdOnlyPattern_stem:
  assumes "IdOnlyPattern f = Some (g, r)"
  shows "stem_is_id f"
proof -
  from assms have g: "is_doc_id g" and f: "f = g @ ''.md'' @ r" and r: "r = [] \<or> r = [NL]"
    unfolding IdOnlyPattern_Some_iff by auto
  from is_doc_id_length [OF g] have "g \<noteq> []" by auto
  from stem_md [OF this r] f g show ?thesis by (simp add: stem_is_id_def)
qed

lemma re_search_SomeD:
  "re_search p s = Some g \<Longrightarrow> \<exists>u v r. s = u @ v \<and> p v = Some (g, r)"
proof (induction s)
  case Nil
  then show ?case by auto
next
  case (Cons c cs)
  show ?case
  proof (cases "p (c # cs)")
    case None
    with Cons obtain u v r where "cs = u @ v" "p v = Some (g, r)" by auto
    then have "c # cs = (c # u) @ v \<and> p v = Some (g, r)" by simp
    then show ?thesis by blast
  next
    case (Some gr)
    with Cons.prems have "c # cs = [] @ (c # cs) \<and> p (c # cs) = Some (g, snd gr)"
      by (cases gr) auto
    then show ?thesis by blast
  qed
qed

lemma IdSuffixPattern_stem:
  assumes "re_search IdSuffixPattern f = Some g"
  shows "stem_ends_with_id f \<and> is_doc_id g"
proof -
  from re_search_SomeD [OF assms] obtain u v r
    where f: "f = u @ v" and v: "IdSuffixPattern v = Some (g, r)" by blast
  from v have g: "is_doc_id g" and v': "v = ''-'' @ g @ ''.md'' @ r" and r: "r = [] \<or> r = [NL]"
    unfolding IdSuffixPattern_Some_iff by auto
  have "stem f = u @ ''-'' @ g"
    using stem_md [of "u @ ''-'' @ g" r] r f v' by auto
  with g is_doc_id_length [OF g] show ?thesis by (simp add: stem_ends_with_id_def)
qed

lemma re_search_skip:
  assumes "\<And>u. u \<noteq> [] \<Longrightarrow> p (u @ t) = None"
  shows "re_search p (name @ t) = re_search p t"
proof (induction name)
  case Nil
  then show ?case by simp
next
  case (Cons c cs)
  have "p (c # cs @ t) = None" using assms [of "c # cs"] by simp
  with Cons show ?case by simp
qed

lemma IdSuffixPattern_only_at_end:
  assumes "u \<noteq> []" and "is_doc_id g"
  shows "IdSuffixPattern (u @ ''-'' @ g @ ''.md'') = None"
proof (cases "IdSuffixPattern (u @ ''-'' @ g @ ''.md'')")
  case None
  then show ?thesis .
next
  case (Some hr)
  obtain h r where hr: "hr = (h, r)" by (cases hr)
  from Some [unfolded hr IdSuffixPattern_Some_iff]
  have h: "is_doc_id h" and eq: "u @ ''-'' @ g @ ''.md'' = ''-'' @ h @ ''.md'' @ r"
    and r: "r = [] \<or> r = [NL]"
    by auto
  from eq have len: "length (u @ ''-'' @ g @ ''.md'') = length (''-'' @ h @ ''.md'' @ r)"
    by (rule arg_cong)
  from r show ?thesis
  proof
    assume "r = []"
    with len is_doc_id_length [OF h] is_doc_id_length [OF assms(2)] assms(1)
    show ?thesis by simp
  next
    assume "r = [NL]"
    with eq have "last (u @ ''-'' @ g @ ''.md'') = last (''-'' @ h @ ''.md'' @ [NL])" by simp
    then show ?thesis by (simp add: NL_def)
  qed
qed

subsection \<open>The extraction\<close>

lemma GetDocumentID_unfold:
  "GetDocumentID f =
     (case re_match IdSeparatorPattern f of
        Some g \<Rightarrow> g
      | None \<Rightarrow>
          (case re_match IdOnlyPattern f of
             Some g \<Rightarrow> g
           | None \<Rightarrow> (case re_search IdSuffixPattern f of Some g \<Rightarrow> g | None \<Rightarrow> [])))"
  by (simp add: GetDocumentID_def Patterns_def split: option.splits)

lemma re_match_Some: "p f = Some (g, r) \<Longrightarrow> re_match p f = Some g"
  by (simp add: re_match_def)

lemma re_match_None: "p f = None \<Longrightarrow> re_match p f = None"
  by (simp add: re_match_def)

lemma GetDocumentID_separator:
  assumes "is_doc_id g" and "c \<in> set ''- _''"
  shows "GetDocumentID (g @ c # rest) = g"
proof -
  have "IdSeparatorPattern (g @ c # rest) = Some (g, rest)"
    unfolding IdSeparatorPattern_Some_iff using assms by blast
  then show ?thesis by (simp add: GetDocumentID_unfold re_match_Some)
qed

lemma not_starts_with_id: "\<not> starts_with_id f \<Longrightarrow> re_match IdSeparatorPattern f = None"
  unfolding starts_with_id_iff re_match_def by (cases "IdSeparatorPattern f") auto

lemma GetDocumentID_whole:
  assumes "is_doc_id g"
  shows "GetDocumentID (g @ ''.md'') = g"
proof -
  have "\<not> starts_with_id (g @ ''.md'')"
    using is_doc_id_length [OF assms] by (simp add: starts_with_id_def)
  moreover have "IdOnlyPattern (g @ ''.md'') = Some (g, [])"
    unfolding IdOnlyPattern_Some_iff using assms by simp
  ultimately show ?thesis
    by (simp add: GetDocumentID_unfold not_starts_with_id re_match_Some)
qed

lemma GetDocumentID_suffix:
  assumes "is_doc_id g" and "\<not> starts_with_id (name @ ''-'' @ g @ ''.md'')"
  shows "GetDocumentID (name @ ''-'' @ g @ ''.md'') = g"
proof -
  let ?f = "name @ ''-'' @ g @ ''.md''"
  have "IdOnlyPattern ?f = None"
  proof (cases "IdOnlyPattern ?f")
    case None
    then show ?thesis .
  next
    case (Some hr)
    obtain h r where hr: "hr = (h, r)" by (cases hr)
    from Some [unfolded hr IdOnlyPattern_Some_iff]
    have h: "is_doc_id h" and eq: "?f = h @ ''.md'' @ r" and r: "r = [] \<or> r = [NL]" by auto
    from eq have len: "length ?f = length (h @ ''.md'' @ r)" by (rule arg_cong)
    from r show ?thesis
    proof
      assume "r = []"
      with len is_doc_id_length [OF h] is_doc_id_length [OF assms(1)] show ?thesis by simp
    next
      assume "r = [NL]"
      with eq have "last ?f = last (h @ ''.md'' @ [NL])" by simp
      then show ?thesis by (simp add: NL_def)
    qed
  qed
  moreover have "re_search IdSuffixPattern (name @ (''-'' @ g @ ''.md''))
      = re_search IdSuffixPattern (''-'' @ g @ ''.md'')"
    by (rule re_search_skip) (use IdSuffixPattern_only_at_end [OF _ assms(1)] in simp)
  moreover have "IdSuffixPattern (''-'' @ g @ ''.md'') = Some (g, [])"
    unfolding IdSuffixPattern_Some_iff using assms(1) by simp
  ultimately show ?thesis
    using not_starts_with_id [OF assms(2)]
    by (simp add: GetDocumentID_unfold re_match_None)
qed

lemma GetDocumentID_shapes:
  assumes "GetDocumentID f \<noteq> []"
  shows "is_doc_id (GetDocumentID f)
    \<and> (starts_with_id f \<or> stem_is_id f \<or> stem_ends_with_id f)"
proof (cases "IdSeparatorPattern f")
  case (Some gr)
  obtain g r where gr: "gr = (g, r)" by (cases gr)
  from Some gr have "starts_with_id f" unfolding starts_with_id_iff by blast
  moreover from Some [unfolded gr IdSeparatorPattern_Some_iff] have "is_doc_id g" by simp
  ultimately show ?thesis using Some gr by (simp add: GetDocumentID_unfold re_match_Some)
next
  case None
  note sep = None
  show ?thesis
  proof (cases "IdOnlyPattern f")
    case (Some gr)
    obtain g r where gr: "gr = (g, r)" by (cases gr)
    from Some gr IdOnlyPattern_stem have "stem_is_id f" by blast
    moreover from Some [unfolded gr IdOnlyPattern_Some_iff] have "is_doc_id g" by simp
    ultimately show ?thesis using Some gr sep
      by (simp add: GetDocumentID_unfold re_match_Some re_match_None)
  next
    case None
    with sep assms obtain g where g: "re_search IdSuffixPattern f = Some g"
      by (cases "re_search IdSuffixPattern f") (auto simp: GetDocumentID_unfold re_match_None)
    from IdSuffixPattern_stem [OF g] g sep None show ?thesis
      by (simp add: GetDocumentID_unfold re_match_None)
  qed
qed

text \<open>
  Claim C6, as the specification words its three shapes. The second pattern asks for
  the extension \<open>.md\<close> and the third for a hyphen before the identifier and the
  extension \<open>.md\<close>, so a name whose stem is or ends in an identifier can still give
  the empty string.
\<close>

theorem GetDocumentID_spec_differs:
  "GetDocumentID ''Notes_10-20.md'' = [] \<and> GetDocumentID_spec ''Notes_10-20.md'' = ''10-20''
   \<and> GetDocumentID ''Notes_10-20.md'' \<noteq> GetDocumentID_spec ''Notes_10-20.md''
   \<and> GetDocumentID ''10-20.txt'' = [] \<and> GetDocumentID_spec ''10-20.txt'' = ''10-20''"
  by code_simp

text \<open>
  Claim C6, as the code has it. The patterns are tried in order and the first match
  wins: an identifier followed by a hyphen, a space or an underscore at the start of
  the name; the name \<open>DD-DD.md\<close>; a name that ends in \<open>-DD-DD.md\<close>. A name that
  starts with an identifier and a separator gives that identifier whatever follows;
  \<open>DD-DD.md\<close> gives \<open>DD-DD\<close>; a name ending in \<open>-DD-DD.md\<close> gives that
  identifier unless the first pattern matches; a name with none of the three shapes of
  the specification gives the empty string; and every result is an identifier or empty.
\<close>

theorem GetDocumentID_patterns:
  "(is_doc_id g \<and> c \<in> set ''- _'' \<longrightarrow> GetDocumentID (g @ c # rest) = g)
   \<and> (is_doc_id g \<longrightarrow> GetDocumentID (g @ ''.md'') = g)
   \<and> (is_doc_id g \<and> \<not> starts_with_id (name @ ''-'' @ g @ ''.md'')
        \<longrightarrow> GetDocumentID (name @ ''-'' @ g @ ''.md'') = g)
   \<and> (\<not> starts_with_id f \<and> \<not> stem_is_id f \<and> \<not> stem_ends_with_id f
        \<longrightarrow> GetDocumentID f = [])
   \<and> (GetDocumentID f = [] \<or> is_doc_id (GetDocumentID f))"
  using GetDocumentID_separator [of g c rest] GetDocumentID_whole [of g]
    GetDocumentID_suffix [of g name] GetDocumentID_shapes [of f]
  by blast

theorem GetDocumentID_patterns_witness:
  "is_doc_id ''10-20'' \<and> CHR ''-'' \<in> set ''- _''
   \<and> GetDocumentID ''10-20-Vision.md'' = ''10-20''
   \<and> GetDocumentID ''10-20.md'' = ''10-20''
   \<and> starts_with_id ''Vision-10-20.md'' = False
   \<and> GetDocumentID ''Vision-10-20.md'' = ''10-20''
   \<and> starts_with_id ''README.md'' = False \<and> stem_is_id ''README.md'' = False
   \<and> stem_ends_with_id ''README.md'' = False
   \<and> GetDocumentID ''README.md'' = []"
proof -
  have h1: "is_doc_id ''10-20''" by (simp add: is_doc_id_def isdigit_def)
  have h2: "CHR ''-'' \<in> set ''- _''" by simp
  have h3: "\<not> starts_with_id ''Vision-10-20.md''" by code_simp
  have h4: "\<not> starts_with_id ''README.md''" "\<not> stem_is_id ''README.md''"
    "\<not> stem_ends_with_id ''README.md''" by code_simp+
  show ?thesis
    using GetDocumentID_patterns [where g = "''10-20''" and c = "CHR ''-''"
        and rest = "''Vision.md''" and name = "''Vision''" and f = "''README.md''"]
      h1 h2 h3 h4
    by simp
qed

section \<open>Proofs: the document content transformer\<close>

subsection \<open>Header removal\<close>

text \<open>Each loop drops the longest run of lines that meet its condition.\<close>

lemma skip_while_dropWhile:
  "StartIndex \<le> length Lines \<Longrightarrow>
     drop (skip_while cond Lines StartIndex) Lines = dropWhile cond (drop StartIndex Lines)"
proof (induction cond Lines StartIndex rule: skip_while.induct)
  case (1 cond Lines StartIndex)
  show ?case
  proof (cases "StartIndex < length Lines \<and> cond (Lines ! StartIndex)")
    case True
    then have d: "drop StartIndex Lines = Lines ! StartIndex # drop (Suc StartIndex) Lines"
      by (simp add: Cons_nth_drop_Suc)
    from True "1.IH" have "drop (skip_while cond Lines (StartIndex + 1)) Lines
        = dropWhile cond (drop (StartIndex + 1) Lines)" by simp
    with True d show ?thesis by (simp add: skip_while.simps [of cond Lines StartIndex])
  next
    case False
    show ?thesis
    proof (cases "StartIndex < length Lines")
      case True
      with False have "\<not> cond (Lines ! StartIndex)" by simp
      moreover from True have "drop StartIndex Lines = Lines ! StartIndex # drop (Suc StartIndex) Lines"
        by (simp add: Cons_nth_drop_Suc)
      ultimately show ?thesis using False by (simp add: skip_while.simps [of cond Lines StartIndex])
    next
      case False
      then show ?thesis by (simp add: skip_while.simps [of cond Lines StartIndex])
    qed
  qed
qed

lemma skip_while_bounds:
  "StartIndex \<le> length Lines \<Longrightarrow>
     StartIndex \<le> skip_while cond Lines StartIndex \<and> skip_while cond Lines StartIndex \<le> length Lines"
proof (induction cond Lines StartIndex rule: skip_while.induct)
  case (1 cond Lines StartIndex)
  show ?case
  proof (cases "StartIndex < length Lines \<and> cond (Lines ! StartIndex)")
    case True
    with "1.IH" show ?thesis by (simp add: skip_while.simps [of cond Lines StartIndex])
  next
    case False
    with "1.prems" show ?thesis by (auto simp: skip_while.simps [of cond Lines StartIndex])
  qed
qed

lemma split_not_Nil [simp]: "split sep s \<noteq> []"
  by (induction s) (auto split: list.splits)

text \<open>
  Claim C3, as the specification words it: one run of marker, tag and blank lines in
  any order. The code runs two loops one after the other, so a timestamp marker that
  follows a tag line stops the second loop and stays in the body.
\<close>

theorem RemoveMetadataHeader_spec_differs:
  "RemoveMetadataHeader ''# T\<newline>[A: b]\<newline>**Created: x**\<newline>body''
     = ''**Created: x**\<newline>body''
   \<and> RemoveMetadataHeader_spec ''# T\<newline>[A: b]\<newline>**Created: x**\<newline>body'' = ''body''
   \<and> RemoveMetadataHeader ''# T\<newline>[A: b]\<newline>**Created: x**\<newline>body''
     \<noteq> RemoveMetadataHeader_spec ''# T\<newline>[A: b]\<newline>**Created: x**\<newline>body''"
  by code_simp

text \<open>
  Claim C3, as the code has it. After the title line, if there is one, the longest run
  of lines that are a \<open>**Created:\<close> or \<open>**Last Modified:\<close> marker or blank is
  dropped, then the longest run of lines that are a tag line (a line that starts with
  an opening bracket and holds a closing one) or blank; what is returned is the rest of
  the lines, joined as they were.
\<close>

theorem RemoveMetadataHeader_two_runs:
  "RemoveMetadataHeader Content =
     join NL (dropWhile is_tag_or_blank (dropWhile is_timestamp_or_blank
       (case split NL Content of
          [] \<Rightarrow> []
        | Line # Rest \<Rightarrow> if startswith Line ''# '' then Rest else Line # Rest)))
   \<and> (\<exists>k. RemoveMetadataHeader Content = join NL (drop k (split NL Content)))"
proof -
  obtain Line Rest where L: "split NL Content = Line # Rest"
    by (cases "split NL Content") auto
  define i :: nat where "i = (if startswith Line ''# '' then 1 else 0)"
  define j where "j = skip_while is_timestamp_or_blank (Line # Rest) i"
  define k where "k = skip_while is_tag_or_blank (Line # Rest) j"
  have i: "i \<le> length (Line # Rest)" by (simp add: i_def)
  have j: "j \<le> length (Line # Rest)" unfolding j_def using skip_while_bounds [OF i] by simp
  have R: "RemoveMetadataHeader Content = join NL (drop k (Line # Rest))"
    by (simp add: RemoveMetadataHeader_def L i_def j_def k_def Let_def)
  have "drop k (Line # Rest) = dropWhile is_tag_or_blank (drop j (Line # Rest))"
    unfolding k_def by (rule skip_while_dropWhile [OF j])
  also have "drop j (Line # Rest) = dropWhile is_timestamp_or_blank (drop i (Line # Rest))"
    unfolding j_def by (rule skip_while_dropWhile [OF i])
  also have "drop i (Line # Rest) = (if startswith Line ''# '' then Rest else Line # Rest)"
    by (simp add: i_def)
  finally have "RemoveMetadataHeader Content =
     join NL (dropWhile is_tag_or_blank (dropWhile is_timestamp_or_blank
       (if startswith Line ''# '' then Rest else Line # Rest)))"
    using R by simp
  moreover from R L have "\<exists>k. RemoveMetadataHeader Content = join NL (drop k (split NL Content))"
    by auto
  ultimately show ?thesis by (simp add: L)
qed

subsection \<open>Template-conflict escaping\<close>

text \<open>
  Claim C7. The escape that one replacement writes is searched again by the
  replacements after it. The escape of \<open>{{ \<close> ends in \<open> }}\<close>, which the third
  replacement rewrites, so the literal-text form of the second replacement is not in
  the result; the escape of \<open>{% \<close> starts with \<open>{{ \<close> and ends in \<open> }}\<close> and is
  rewritten twice. A triple brace next to a space is caught by the earlier replacements
  before the triple-brace step sees it.
\<close>

theorem ProcessJekyllIncompatibleContent_escapes_rewritten:
  \<open>ProcessJekyllIncompatibleContent ''{{ x }}'' = ''{{ "{{ " {{ "}}" }}x {{ "}}" }}''
   \<and> contains (replace ''{{ '' ''{{ "{{ " }}'' ''{{ x }}'') ''{{ "{{ " }}''
   \<and> \<not> contains (ProcessJekyllIncompatibleContent ''{{ x }}'') ''{{ "{{ " }}''
   \<and> ProcessJekyllIncompatibleContent ''{% x %}''
       = ''{{ "{{ " {{ "}}" }}"{% " {{ "}}" }}x {{ "%}" }}''
   \<and> \<not> contains (ProcessJekyllIncompatibleContent ''{% x %}'') ''{{ "{% " }}''
   \<and> ProcessJekyllIncompatibleContent ''{{{ x }}}''
       = ''&#123;&#123;&#123; "{{ " {{ "}}" }}x {{ "}}" &#125;&#125;&#125;''
   \<and> ProcessJekyllIncompatibleContent ''{{{x}}}'' = ''&#123;&#123;&#123;x&#125;&#125;&#125;''\<close>
  by code_simp

section \<open>Proofs: the metadata extractor\<close>

subsection \<open>The blocks of the extraction\<close>

lemma extract_context_store:
  "extract_context Content M = Inr (foldl store_tag M (re_finditer ContextPattern Content))"
proof -
  have "(\<lambda>M (Key, Value). M(lower Key \<mapsto> strip Value)) = store_tag"
    by (auto simp: store_tag_def fun_eq_iff)
  then show ?thesis by (simp add: extract_context_def)
qed

lemma foldl_store_other:
  "\<forall>(Key, Value) \<in> set tags. lower Key \<noteq> k \<Longrightarrow> foldl store_tag M tags k = M k"
  by (induction tags arbitrary: M) (auto simp: store_tag_def)

lemma foldl_store_last:
  assumes "\<forall>(Key', Value') \<in> set after. lower Key' \<noteq> lower Key"
  shows "foldl store_tag M (before @ [(Key, Value)] @ after) (lower Key) = Some (strip Value)"
  using foldl_store_other [OF assms] by (simp add: store_tag_def)



lemma extract_title_Inr: "\<exists>M'. extract_title Content M = Inr M'"
  by (simp add: extract_title_def split: option.splits)

lemma extract_created_Inr: "\<exists>M'. extract_created Content M = Inr M'"
  by (simp add: extract_created_def Let_def split: option.splits)

lemma extract_modified_Inr: "\<exists>M'. extract_modified Content M = Inr M'"
  by (simp add: extract_modified_def Let_def split: option.splits)

lemma ExtractMetadata_try_eq:
  "ExtractMetadata_try Content =
     (let M4 = foldl store_tag (header_metadata Content) (re_finditer ContextPattern Content)
      in (case re_search doc_id Content of
            Some g \<Rightarrow> M4(''doc_number'' \<mapsto> g)
          | None \<Rightarrow> M4), None)"
proof -
  obtain M1 where 1: "extract_title Content Map.empty = Inr M1"
    using extract_title_Inr by blast
  obtain M2 where 2: "extract_created Content M1 = Inr M2"
    using extract_created_Inr by blast
  obtain M3 where 3: "extract_modified Content M2 = Inr M3"
    using extract_modified_Inr by blast
  have h: "header_metadata Content = M3" by (simp add: header_metadata_def 1 2 3)
  show ?thesis
    by (simp add: ExtractMetadata_try_def 1 2 3 h extract_context_store extract_doc_number_def
          Let_def split: option.splits)
qed

lemma ExtractMetadata_eq:
  "ExtractMetadata Content =
     (let M4 = foldl store_tag (header_metadata Content) (re_finditer ContextPattern Content)
      in (case re_search doc_id Content of
            Some g \<Rightarrow> M4(''doc_number'' \<mapsto> g)
          | None \<Rightarrow> M4))"
  by (simp add: ExtractMetadata_def ExtractMetadata_try_eq Let_def)

lemma ExtractMetadata_tagged:
  assumes "re_finditer ContextPattern Content = before @ [(Key, Value)] @ after"
    and "\<forall>(Key', Value') \<in> set after. lower Key' \<noteq> lower Key"
    and "lower Key \<noteq> ''doc_number''"
  shows "ExtractMetadata Content (lower Key) = Some (strip Value)"
  using foldl_store_last [OF assms(2), of "header_metadata Content" before Value] assms(1,3)
  by (simp add: ExtractMetadata_eq Let_def split: option.splits)

lemma ExtractMetadata_untagged:
  assumes "\<forall>(Key, Value) \<in> set (re_finditer ContextPattern Content). lower Key \<noteq> k"
    and "k \<noteq> ''doc_number''"
  shows "ExtractMetadata Content k = header_metadata Content k"
  using foldl_store_other [OF assms(1), of "header_metadata Content"] assms(2)
  by (simp add: ExtractMetadata_eq Let_def split: option.splits)

lemma except_pass_eq:
  "except_pass M (try_normalized_date source target M) =
     (case ParseTimestamp (case M source of Some v \<Rightarrow> v | None \<Rightarrow> []) of
        Inl e \<Rightarrow> M
      | Inr d \<Rightarrow> M(target \<mapsto> strftime_Ymd d))"
  by (simp add: except_pass_def try_normalized_date_def split: sum.splits)

lemma header_created:
  assumes "re_search CreatedPattern Content = Some v"
  shows "header_metadata Content ''created_at'' = Some (strip v)"
    and "ParseTimestamp (strip v) = Inl e \<Longrightarrow> header_metadata Content ''created_date'' = None"
    and "ParseTimestamp (strip v) = Inr d \<Longrightarrow>
           header_metadata Content ''created_date'' = Some (strftime_Ymd d)"
  using assms
  by (auto simp: header_metadata_def extract_title_def extract_created_def extract_modified_def
        except_pass_eq Let_def split: option.splits sum.splits)

lemma header_modified:
  assumes "re_search ModifiedPattern Content = Some v"
  shows "header_metadata Content ''modified_at'' = Some (strip v)"
    and "ParseTimestamp (strip v) = Inl e \<Longrightarrow> header_metadata Content ''modified_date'' = None"
    and "ParseTimestamp (strip v) = Inr d \<Longrightarrow>
           header_metadata Content ''modified_date'' = Some (strftime_Ymd d)"
  using assms
  by (auto simp: header_metadata_def extract_title_def extract_created_def extract_modified_def
        except_pass_eq Let_def split: option.splits sum.splits)

lemma header_no_doc_number: "header_metadata Content ''doc_number'' = None"
  by (auto simp: header_metadata_def extract_title_def extract_created_def extract_modified_def
        except_pass_eq Let_def split: option.splits sum.splits)

subsection \<open>Timestamps\<close>

lemma ParseTimestamp_examples:
  "map_sum id strftime_Ymd (ParseTimestamp ''March 15, 2025 3:15 PM'') = Inr ''2025-03-15''"
  "map_sum id strftime_Ymd (ParseTimestamp ''2025-03-15 15:15'') = Inr ''2025-03-15''"
  "ParseTimestamp ''not a date'' = Inl ValueError"
  by code_simp+

lemma ParseTimestamp_fallback:
  assumes "try_formats Formats s = None"
    and "take 1 (FallbackMatches s) = [(Month, Day, Year, Hour, Minute, AMPM)]"
    and "MonthNum Month = Some m"
  shows "ParseTimestamp s
     = make_datetime (int_of Year) m (int_of Day) (fallback_hour AMPM (int_of Hour)) (int_of Minute)"
proof -
  from assms(2) obtain more where "FallbackMatches s = (Month, Day, Year, Hour, Minute, AMPM) # more"
    by (cases "FallbackMatches s") auto
  with assms(1,3) show ?thesis by (simp add: ParseTimestamp_def ParseFallback_def)
qed

text \<open>
  Claim C5, as stated: the text of a marker whose value does not parse is kept verbatim
  and no normalized date is present. The captured text is stored stripped of the white
  space around it, a context tag \<open>created_date\<close> later in the text supplies the field
  all the same, and in the tolerant pattern \<open>PM\<close> after an hour above 12 adds nothing.
\<close>

theorem timestamp_text_stripped:
  "re_search CreatedPattern ''**Created:  not a date **'' = Some '' not a date ''
   \<and> ParseTimestamp (strip '' not a date '') = Inl ValueError
   \<and> ExtractMetadata ''**Created:  not a date **'' ''created_at'' = Some ''not a date''
   \<and> ExtractMetadata ''**Created:  not a date **'' ''created_at'' \<noteq> Some '' not a date ''
   \<and> re_search CreatedPattern ''**Created: not a date**\<newline>[Created_Date: 2025]''
       = Some ''not a date''
   \<and> ExtractMetadata ''**Created: not a date**\<newline>[Created_Date: 2025]'' ''created_date''
       = Some ''2025''
   \<and> map_sum id dt_hour (ParseTimestamp ''March 15 2025 13:30 PM'') = Inr 13"
  by code_simp

text \<open>
  Claim C5, as the code has it. The two sample timestamps parse to a date that formats
  as \<open>2025-03-15\<close> and \<open>not a date\<close> fails. When the \<open>Created\<close> marker matches, its
  stripped text does not parse, and no context tag has the key \<open>created_at\<close> or
  \<open>created_date\<close>, the result holds the stripped text as \<open>created_at\<close> and no
  \<open>created_date\<close>. When no format template parses the text and the tolerant pattern
  matches with a known month name, the result is the date of its groups with the hour
  normalized: 12 AM is hour 0, PM adds 12 to an hour below 12 and leaves 12 and above
  as they are, and any other hour is kept.
\<close>

theorem timestamp_parsing:
  "map_sum id strftime_Ymd (ParseTimestamp ''March 15, 2025 3:15 PM'') = Inr ''2025-03-15''
   \<and> map_sum id strftime_Ymd (ParseTimestamp ''2025-03-15 15:15'') = Inr ''2025-03-15''
   \<and> ParseTimestamp ''not a date'' = Inl ValueError
   \<and> (re_search CreatedPattern Content = Some v \<and> ParseTimestamp (strip v) = Inl e
        \<and> (\<forall>(Key, Value) \<in> set (re_finditer ContextPattern Content).
              lower Key \<noteq> ''created_at'' \<and> lower Key \<noteq> ''created_date'')
      \<longrightarrow> ExtractMetadata Content ''created_at'' = Some (strip v)
          \<and> ExtractMetadata Content ''created_date'' = None)
   \<and> (try_formats Formats s = None
        \<and> take 1 (FallbackMatches s) = [(Month, Day, Year, Hour, Minute, AMPM)]
        \<and> MonthNum Month = Some m
      \<longrightarrow> ParseTimestamp s
            = make_datetime (int_of Year) m (int_of Day)
                (fallback_hour AMPM (int_of Hour)) (int_of Minute))
   \<and> fallback_hour (Some ''AM'') 12 = 0
   \<and> fallback_hour (Some ''PM'') 12 = 12
   \<and> (h < 12 \<longrightarrow> fallback_hour (Some ''PM'') h = h + 12)
   \<and> (12 \<le> h \<longrightarrow> fallback_hour (Some ''PM'') h = h)
   \<and> (h \<noteq> 12 \<longrightarrow> fallback_hour (Some ''AM'') h = h)
   \<and> fallback_hour None h = h"
proof -
  have created: "ExtractMetadata Content ''created_at'' = Some (strip v)
          \<and> ExtractMetadata Content ''created_date'' = None"
    if a: "re_search CreatedPattern Content = Some v \<and> ParseTimestamp (strip v) = Inl e
        \<and> (\<forall>(Key, Value) \<in> set (re_finditer ContextPattern Content).
              lower Key \<noteq> ''created_at'' \<and> lower Key \<noteq> ''created_date'')"
  proof -
    from a have 1: "\<forall>(Key, Value) \<in> set (re_finditer ContextPattern Content). lower Key \<noteq> ''created_at''"
      and 2: "\<forall>(Key, Value) \<in> set (re_finditer ContextPattern Content). lower Key \<noteq> ''created_date''"
      by auto
    from a have c: "re_search CreatedPattern Content = Some v" and p: "ParseTimestamp (strip v) = Inl e"
      by auto
    show ?thesis
      using ExtractMetadata_untagged [OF 1] ExtractMetadata_untagged [OF 2]
        header_created(1) [OF c] header_created(2) [OF c p]
      by simp
  qed
  have hours: "fallback_hour (Some ''AM'') 12 = 0" "fallback_hour (Some ''PM'') 12 = 12"
    "h < 12 \<longrightarrow> fallback_hour (Some ''PM'') h = h + 12"
    "12 \<le> h \<longrightarrow> fallback_hour (Some ''PM'') h = h"
    "h \<noteq> 12 \<longrightarrow> fallback_hour (Some ''AM'') h = h"
    "fallback_hour None h = h"
    by (simp_all add: fallback_hour_def)
  show ?thesis
    using ParseTimestamp_examples created ParseTimestamp_fallback [of s Month Day Year Hour Minute AMPM m]
      hours
    by blast
qed

theorem timestamp_parsing_witness:
  "re_search CreatedPattern ''# T\<newline>**Created: not a date**\<newline>[Status: Draft]'' = Some ''not a date''
   \<and> ParseTimestamp (strip ''not a date'') = Inl ValueError
   \<and> re_finditer ContextPattern ''# T\<newline>**Created: not a date**\<newline>[Status: Draft]''
       = [(''Status'', ''Draft'')]
   \<and> ExtractMetadata ''# T\<newline>**Created: not a date**\<newline>[Status: Draft]'' ''created_at''
       = Some ''not a date''
   \<and> ExtractMetadata ''# T\<newline>**Created: not a date**\<newline>[Status: Draft]'' ''created_date''
       = None
   \<and> try_formats Formats ''March 15 2025 12:30AM'' = None
   \<and> take 1 (FallbackMatches ''March 15 2025 12:30AM'')
       = [(''March'', ''15'', ''2025'', ''12'', ''30'', Some ''AM'')]
   \<and> MonthNum ''March'' = Some 3
   \<and> ParseTimestamp ''March 15 2025 12:30AM''
       = Inr \<lparr>dt_year = 2025, dt_month = 3, dt_day = 15, dt_hour = 0, dt_minute = 30\<rparr>
   \<and> fallback_hour (Some ''PM'') 3 = 15
   \<and> fallback_hour (Some ''PM'') 13 = 13
   \<and> fallback_hour (Some ''AM'') 9 = 9"
proof -
  let ?c = "''# T\<newline>**Created: not a date**\<newline>[Status: Draft]''"
  have c: "re_search CreatedPattern ?c = Some ''not a date''" by code_simp
  have s: "strip ''not a date'' = ''not a date''" by code_simp
  have p: "ParseTimestamp ''not a date'' = Inl ValueError" by code_simp
  have f: "re_finditer ContextPattern ?c = [(''Status'', ''Draft'')]" by code_simp
  have l: "lower ''Status'' = ''status''" by code_simp
  have t: "try_formats Formats ''March 15 2025 12:30AM'' = None" by code_simp
  have m: "take 1 (FallbackMatches ''March 15 2025 12:30AM'')
       = [(''March'', ''15'', ''2025'', ''12'', ''30'', Some ''AM'')]" by code_simp
  have n: "MonthNum ''March'' = Some 3" by code_simp
  have i: "int_of ''2025'' = 2025" "int_of ''15'' = 15" "int_of ''12'' = 12" "int_of ''30'' = 30"
    by code_simp+
  have d: "make_datetime 2025 3 15 0 30
      = Inr \<lparr>dt_year = 2025, dt_month = 3, dt_day = 15, dt_hour = 0, dt_minute = 30\<rparr>"
    by code_simp
  show ?thesis
    using timestamp_parsing [where Content = ?c and v = "''not a date''" and e = ValueError
        and s = "''March 15 2025 12:30AM''" and Month = "''March''" and Day = "''15''"
        and Year = "''2025''" and Hour = "''12''" and Minute = "''30''" and AMPM = "Some ''AM''"
        and m = 3 and h = 3]
      timestamp_parsing [where h = 13] timestamp_parsing [where h = 9]
      c s p f l t m n i d
    by simp
qed

subsection \<open>No exception leaves the extraction\<close>

lemma dom_foldl_store: "k \<in> dom M \<Longrightarrow> k \<in> dom (foldl store_tag M tags)"
proof (induction tags arbitrary: M)
  case Nil
  then show ?case by simp
next
  case (Cons kv tags)
  from Cons.prems have "k \<in> dom (store_tag M kv)"
    by (cases kv) (auto simp: store_tag_def)
  from Cons.IH [OF this] show ?case by simp
qed

lemma header_in_result:
  assumes "k \<in> dom (header_metadata Content)"
  shows "k \<in> dom (ExtractMetadata Content)"
  using dom_foldl_store [OF assms, of "re_finditer ContextPattern Content"]
  by (auto simp: ExtractMetadata_eq Let_def split: option.splits)

subsection \<open>An exception that leaves a block\<close>

lemma run_blocks_append:
  "run_blocks pre Start = (Acc, None) \<Longrightarrow> run_blocks (pre @ blocks) Start = run_blocks blocks Acc"
  by (induction pre arbitrary: Start) (auto split: sum.splits)

lemma run_blocks_error:
  assumes "run_blocks pre Start = (Acc, None)" and "block Acc = Inl err"
  shows "run_blocks (pre @ block # rest) Start = (Acc, Some err)"
  using run_blocks_append [OF assms(1), of "block # rest"] assms(2) by simp

text \<open>
  Claim C9. For every text the outer \<open>try\<close> of \<open>ExtractMetadata\<close> runs to its end
  with no exception, and the function returns the metadata gathered by all five blocks.
  The handler of the outer \<open>try\<close> is what the claim's second clause is about: when
  the blocks before have run and the next one raises, the run ends there and the result
  is the metadata gathered up to that block, none of it lost and nothing of the later
  blocks in it, together with the exception for the log. The only exception raised
  inside, the \<open>ValueError\<close> of \<open>ParseTimestamp\<close>, is caught where it is raised and
  leaves the metadata as it was, so a timestamp that does not parse costs its
  normalized date only: the text of a matched marker is in the result as
  \<open>created_at\<close> or \<open>modified_at\<close> whether it parses or not.
\<close>

theorem ExtractMetadata_never_raises:
  "ExtractMetadata_try Content = (ExtractMetadata Content, None)
   \<and> fst (run_blocks [extract_title Content, extract_created Content, extract_modified Content,
                      extract_context Content, extract_doc_number Content] Map.empty)
       = ExtractMetadata Content
   \<and> (run_blocks pre Start = (Acc, None) \<and> block Acc = Inl err
        \<longrightarrow> run_blocks (pre @ block # rest) Start = (Acc, Some err))
   \<and> (ParseTimestamp (case M source of Some v \<Rightarrow> v | None \<Rightarrow> []) = Inl e
        \<longrightarrow> except_pass M (try_normalized_date source target M) = M)
   \<and> (re_search CreatedPattern Content = Some v
        \<longrightarrow> ''created_at'' \<in> dom (ExtractMetadata Content))
   \<and> (re_search ModifiedPattern Content = Some v'
        \<longrightarrow> ''modified_at'' \<in> dom (ExtractMetadata Content))"
proof (intro conjI impI)
  show "ExtractMetadata_try Content = (ExtractMetadata Content, None)"
    by (simp add: ExtractMetadata_def ExtractMetadata_try_eq Let_def)
next
  show "fst (run_blocks [extract_title Content, extract_created Content, extract_modified Content,
                      extract_context Content, extract_doc_number Content] Map.empty)
       = ExtractMetadata Content"
    by (simp only: ExtractMetadata_def ExtractMetadata_try_def)
next
  assume "run_blocks pre Start = (Acc, None) \<and> block Acc = Inl err"
  then show "run_blocks (pre @ block # rest) Start = (Acc, Some err)"
    using run_blocks_error [of pre Start Acc block err rest] by simp
next
  assume "ParseTimestamp (case M source of Some v \<Rightarrow> v | None \<Rightarrow> []) = Inl e"
  then show "except_pass M (try_normalized_date source target M) = M"
    by (simp add: except_pass_eq)
next
  assume "re_search CreatedPattern Content = Some v"
  from header_created(1) [OF this] show "''created_at'' \<in> dom (ExtractMetadata Content)"
    by (intro header_in_result) auto
next
  assume "re_search ModifiedPattern Content = Some v'"
  from header_modified(1) [OF this] show "''modified_at'' \<in> dom (ExtractMetadata Content)"
    by (intro header_in_result) auto
qed

theorem ExtractMetadata_never_raises_witness:
  "ExtractMetadata_try ''**Created: not a date**\<newline>**Last Modified: 2025-03-15 15:15**''
      = (ExtractMetadata ''**Created: not a date**\<newline>**Last Modified: 2025-03-15 15:15**'', None)
   \<and> run_blocks [extract_title ''# T\<newline>10-20''] Map.empty = ([''title'' \<mapsto> ''T''], None)
   \<and> try_normalized_date ''created_at'' ''created_date'' [''title'' \<mapsto> ''T''] = Inl ValueError
   \<and> run_blocks ([extract_title ''# T\<newline>10-20'']
          @ try_normalized_date ''created_at'' ''created_date'' # [extract_doc_number ''# T\<newline>10-20''])
        Map.empty
      = ([''title'' \<mapsto> ''T''], Some ValueError)
   \<and> ParseTimestamp ''not a date'' = Inl ValueError
   \<and> except_pass [''created_at'' \<mapsto> ''not a date'']
        (try_normalized_date ''created_at'' ''created_date'' [''created_at'' \<mapsto> ''not a date''])
      = [''created_at'' \<mapsto> ''not a date'']
   \<and> re_search CreatedPattern ''**Created: not a date**\<newline>**Last Modified: 2025-03-15 15:15**''
      = Some ''not a date''
   \<and> re_search ModifiedPattern ''**Created: not a date**\<newline>**Last Modified: 2025-03-15 15:15**''
      = Some ''2025-03-15 15:15''
   \<and> ''created_at'' \<in> dom (ExtractMetadata ''**Created: not a date**\<newline>**Last Modified: 2025-03-15 15:15**'')
   \<and> ''modified_at'' \<in> dom (ExtractMetadata ''**Created: not a date**\<newline>**Last Modified: 2025-03-15 15:15**'')
   \<and> map (ExtractMetadata ''**Created: not a date**\<newline>**Last Modified: 2025-03-15 15:15**'')
        [''created_at'', ''created_date'', ''modified_at'', ''modified_date'', ''doc_number'']
      = [Some ''not a date'', None, Some ''2025-03-15 15:15'', Some ''2025-03-15'', Some ''25-03'']"
proof -
  let ?c = "''**Created: not a date**\<newline>**Last Modified: 2025-03-15 15:15**''"
  let ?d = "''# T\<newline>10-20''"
  have p: "ParseTimestamp ''not a date'' = Inl ValueError" by code_simp
  have c: "re_search CreatedPattern ?c = Some ''not a date''" by code_simp
  have m: "re_search ModifiedPattern ?c = Some ''2025-03-15 15:15''" by code_simp
  have r: "map (ExtractMetadata ?c)
        [''created_at'', ''created_date'', ''modified_at'', ''modified_date'', ''doc_number'']
      = [Some ''not a date'', None, Some ''2025-03-15 15:15'', Some ''2025-03-15'', Some ''25-03'']"
    by code_simp
  have t: "re_search_lines TitlePattern True ?d = Some ''T''" by code_simp
  have s: "strip ''T'' = ''T''" by code_simp
  have "extract_title ?d Map.empty = Inr [''title'' \<mapsto> ''T'']"
    unfolding extract_title_def t by (simp add: s)
  then have b: "run_blocks [extract_title ?d] Map.empty = ([''title'' \<mapsto> ''T''], None)"
    by simp
  have q: "ParseTimestamp [] = Inl ValueError" by code_simp
  have n: "try_normalized_date ''created_at'' ''created_date'' [''title'' \<mapsto> ''T''] = Inl ValueError"
    by (simp add: try_normalized_date_def q)
  show ?thesis
    using ExtractMetadata_never_raises [where Content = ?c
        and pre = "[extract_title ?d]" and Start = Map.empty and Acc = "[''title'' \<mapsto> ''T'']"
        and block = "try_normalized_date ''created_at'' ''created_date''" and err = ValueError
        and rest = "[extract_doc_number ?d]"
        and M = "[''created_at'' \<mapsto> ''not a date'']" and source = "''created_at''"
        and target = "''created_date''" and e = ValueError
        and v = "''not a date''" and v' = "''2025-03-15 15:15''"]
      p c m r b n
    by simp
qed

subsection \<open>The bare identifier scan\<close>

text \<open>
  Claim C8, as stated: a \<open>doc_number\<close> that a context tag has set is kept. The scan
  for a bare identifier is the last block and stores what it finds without looking at
  the mapping.
\<close>

theorem doc_number_tag_not_preserved:
  "re_finditer ContextPattern ''[Doc_Number: AB] see 10-20'' = [(''Doc_Number'', ''AB'')]
   \<and> lower ''Doc_Number'' = ''doc_number''
   \<and> re_search doc_id ''[Doc_Number: AB] see 10-20'' = Some ''10-20''
   \<and> ExtractMetadata ''[Doc_Number: AB] see 10-20'' ''doc_number'' = Some ''10-20''
   \<and> ExtractMetadata ''[Doc_Number: AB] see 10-20'' ''doc_number'' \<noteq> Some ''AB''"
  by code_simp

text \<open>
  Claim C8, as the code has it. When the text holds an identifier \<open>DD-DD\<close> anywhere,
  \<open>doc_number\<close> is the first one, whatever a \<open>doc_number\<close> tag said; only when the
  text holds none does the value of the last \<open>doc_number\<close> tag stay, and without such
  a tag the field is absent.
\<close>

theorem doc_number_scan_overwrites:
  "(re_search doc_id Content = Some g \<longrightarrow> ExtractMetadata Content ''doc_number'' = Some g)
   \<and> (re_search doc_id Content = None
        \<and> re_finditer ContextPattern Content = before @ [(Key, Value)] @ after
        \<and> lower Key = ''doc_number''
        \<and> (\<forall>(Key', Value') \<in> set after. lower Key' \<noteq> ''doc_number'')
      \<longrightarrow> ExtractMetadata Content ''doc_number'' = Some (strip Value))
   \<and> (re_search doc_id Content = None
        \<and> (\<forall>(Key', Value') \<in> set (re_finditer ContextPattern Content). lower Key' \<noteq> ''doc_number'')
      \<longrightarrow> ExtractMetadata Content ''doc_number'' = None)"
proof (intro conjI impI)
  assume "re_search doc_id Content = Some g"
  then show "ExtractMetadata Content ''doc_number'' = Some g"
    by (simp add: ExtractMetadata_eq Let_def)
next
  assume a: "re_search doc_id Content = None
        \<and> re_finditer ContextPattern Content = before @ [(Key, Value)] @ after
        \<and> lower Key = ''doc_number''
        \<and> (\<forall>(Key', Value') \<in> set after. lower Key' \<noteq> ''doc_number'')"
  then have "\<forall>(Key', Value') \<in> set after. lower Key' \<noteq> lower Key" by simp
  from foldl_store_last [OF this, of "header_metadata Content" before Value] a
  show "ExtractMetadata Content ''doc_number'' = Some (strip Value)"
    by (simp add: ExtractMetadata_eq Let_def)
next
  assume a: "re_search doc_id Content = None
        \<and> (\<forall>(Key', Value') \<in> set (re_finditer ContextPattern Content). lower Key' \<noteq> ''doc_number'')"
  then have "\<forall>(Key', Value') \<in> set (re_finditer ContextPattern Content). lower Key' \<noteq> ''doc_number''"
    by simp
  from foldl_store_other [OF this, of "header_metadata Content"] a
  show "ExtractMetadata Content ''doc_number'' = None"
    by (simp add: ExtractMetadata_eq Let_def header_no_doc_number)
qed

theorem doc_number_scan_overwrites_witness:
  "re_search doc_id ''[Doc_Number: AB] see 10-20'' = Some ''10-20''
   \<and> ExtractMetadata ''[Doc_Number: AB] see 10-20'' ''doc_number'' = Some ''10-20''
   \<and> re_search doc_id ''[Doc_Number:  AB ] [Status: Draft]'' = None
   \<and> re_finditer ContextPattern ''[Doc_Number:  AB ] [Status: Draft]''
       = [] @ [(''Doc_Number'', '' AB '')] @ [(''Status'', ''Draft'')]
   \<and> lower ''Doc_Number'' = ''doc_number'' \<and> lower ''Status'' = ''status''
   \<and> ExtractMetadata ''[Doc_Number:  AB ] [Status: Draft]'' ''doc_number'' = Some ''AB''
   \<and> re_search doc_id ''[Status: Draft]'' = None
   \<and> re_finditer ContextPattern ''[Status: Draft]'' = [(''Status'', ''Draft'')]
   \<and> ExtractMetadata ''[Status: Draft]'' ''doc_number'' = None"
proof -
  have s1: "re_search doc_id ''[Doc_Number: AB] see 10-20'' = Some ''10-20''" by code_simp
  have s2: "re_search doc_id ''[Doc_Number:  AB ] [Status: Draft]'' = None" by code_simp
  have s3: "re_search doc_id ''[Status: Draft]'' = None" by code_simp
  have f2: "re_finditer ContextPattern ''[Doc_Number:  AB ] [Status: Draft]''
       = [] @ [(''Doc_Number'', '' AB '')] @ [(''Status'', ''Draft'')]" by code_simp
  have f3: "re_finditer ContextPattern ''[Status: Draft]'' = [(''Status'', ''Draft'')]" by code_simp
  have l: "lower ''Doc_Number'' = ''doc_number''" "lower ''Status'' = ''status''" by code_simp+
  have st: "strip '' AB '' = ''AB''" by code_simp
  show ?thesis
    using doc_number_scan_overwrites [where Content = "''[Doc_Number: AB] see 10-20''"
        and g = "''10-20''"]
      doc_number_scan_overwrites [where Content = "''[Doc_Number:  AB ] [Status: Draft]''"
        and before = "[]" and Key = "''Doc_Number''" and Value = "'' AB ''"
        and after = "[(''Status'', ''Draft'')]"]
      doc_number_scan_overwrites [where Content = "''[Status: Draft]''"]
      s1 s2 s3 f2 f3 l st
    by simp
qed

subsection \<open>Context tags and the header fields\<close>

text \<open>
  Claim C10, as stated: a \<open>[Title: X]\<close> tag anywhere in the text gives the title
  \<open>X\<close>. The tag scan goes from left to right and a key may hold an opening bracket,
  so a tag written inside an open bracket is read with that bracket in its key: in
  \<open>[[Title: X]]\<close> the key is \<open>[Title\<close>, and the title stays the heading.
\<close>

theorem title_tag_inside_bracket:
  "contains ''# H\<newline>[[Title: X]]'' ''[Title: X]''
   \<and> re_search_lines TitlePattern True ''# H\<newline>[[Title: X]]'' = Some ''H''
   \<and> re_finditer ContextPattern ''# H\<newline>[[Title: X]]'' = [(''[Title'', ''X'')]
   \<and> ExtractMetadata ''# H\<newline>[[Title: X]]'' ''title'' = Some ''H''
   \<and> ExtractMetadata ''# H\<newline>[[Title: X]]'' ''title'' \<noteq> Some ''X''
   \<and> ExtractMetadata ''# H\<newline>[[Title: X]]'' ''[title'' = Some ''X''"
  by code_simp

subsection \<open>Where the tag scan finds a tag\<close>

lemma brackets_closed_append: "brackets_closed (m @ r) \<Longrightarrow> brackets_closed r"
  by (induction m) (auto split: if_splits)

lemma ContextPattern_Nil: "ContextPattern [] = None"
  by (simp add: ContextPattern_def)

lemma ContextPattern_SomeD:
  assumes "ContextPattern s = Some ((K, V), r)"
  shows "s = CHR ''['' # K @ '': '' @ V @ CHR '']'' # r"
    and "K \<noteq> []" and "V \<noteq> []"
    and "\<forall>c \<in> set K. c \<noteq> CHR '':'' \<and> c \<noteq> CHR '']''"
    and "CHR '']'' \<notin> set V"
proof -
  let ?P = "\<lambda>c. c \<noteq> CHR '':'' \<and> c \<noteq> CHR '']''"
  let ?Q = "\<lambda>c. c \<noteq> CHR '']''"
  from assms obtain r1 r2 where
    1: "s = CHR ''['' # r1" and
    k: "K = takeWhile ?P r1" and kn: "K \<noteq> []" and
    2: "drop (length K) r1 = '': '' @ r2" and
    v: "V = takeWhile ?Q r2" and vn: "V \<noteq> []" and
    3: "drop (length V) r2 = CHR '']'' # r"
    by (auto simp: ContextPattern_def Let_def lit_Some_iff
          split: Option.bind_splits if_splits)
  have "r1 = K @ drop (length K) r1"
    unfolding k by (simp add: dropWhile_eq_drop [symmetric])
  with 2 have r1: "r1 = K @ '': '' @ r2" by simp
  have "r2 = V @ drop (length V) r2"
    unfolding v by (simp add: dropWhile_eq_drop [symmetric])
  with 3 have r2: "r2 = V @ CHR '']'' # r" by simp
  from 1 r1 r2 show "s = CHR ''['' # K @ '': '' @ V @ CHR '']'' # r" by simp
  from kn show "K \<noteq> []" .
  from vn show "V \<noteq> []" .
  from k show "\<forall>c \<in> set K. c \<noteq> CHR '':'' \<and> c \<noteq> CHR '']''"
    by (auto dest: set_takeWhileD)
  from v show "CHR '']'' \<notin> set V" by (auto dest: set_takeWhileD)
qed

lemma ContextPattern_tag:
  assumes "K \<noteq> []" and "\<forall>c \<in> set K. c \<noteq> CHR '':'' \<and> c \<noteq> CHR '']''"
    and "V \<noteq> []" and "CHR '']'' \<notin> set V"
  shows "ContextPattern (CHR ''['' # K @ '': '' @ V @ CHR '']'' # r) = Some ((K, V), r)"
proof -
  let ?P = "\<lambda>c. c \<noteq> CHR '':'' \<and> c \<noteq> CHR '']''"
  let ?Q = "\<lambda>c. c \<noteq> CHR '']''"
  have k: "takeWhile ?P (K @ CHR '':'' # CHR '' '' # V @ CHR '']'' # r) = K"
    using assms(2) by (simp add: takeWhile_append2)
  have "\<forall>c \<in> set V. ?Q c" using assms(4) by auto
  then have v: "takeWhile ?Q (V @ CHR '']'' # r) = V"
    by (simp add: takeWhile_append2)
  show ?thesis
    using assms(1,3) by (simp add: ContextPattern_def Let_def k v)
qed

lemma ContextPattern_local:
  assumes "c = CHR ''['' \<longrightarrow> CHR '']'' \<in> set cs"
  shows "ContextPattern ((c # cs) @ ys)
      = map_option (\<lambda>(g, r). (g, r @ ys)) (ContextPattern (c # cs))"
proof (cases "ContextPattern (c # cs)")
  case (Some gr)
  obtain K V r where gr: "gr = ((K, V), r)" by (cases gr) auto
  note d = ContextPattern_SomeD [OF Some [unfolded gr]]
  have "ContextPattern (CHR ''['' # K @ '': '' @ V @ CHR '']'' # (r @ ys)) = Some ((K, V), r @ ys)"
    by (rule ContextPattern_tag) (use d in auto)
  with d(1) Some gr show ?thesis by simp
next
  case None
  have "ContextPattern ((c # cs) @ ys) = None"
  proof (cases "ContextPattern ((c # cs) @ ys)")
    case None
    then show ?thesis .
  next
    case (Some gr)
    obtain K V r' where gr: "gr = ((K, V), r')" by (cases gr) auto
    note d = ContextPattern_SomeD [OF Some [unfolded gr]]
    let ?Q = "\<lambda>c. c \<noteq> CHR '']''"
    from d(1) have c: "c = CHR ''[''" and e: "cs @ ys = (K @ '': '' @ V) @ CHR '']'' # r'" by simp_all
    with assms have b: "CHR '']'' \<in> set cs" by simp
    have a: "\<forall>x \<in> set (K @ '': '' @ V). ?Q x" using d(4,5) by auto
    have "takeWhile ?Q (cs @ ys) = K @ '': '' @ V"
      unfolding e using a by (simp add: takeWhile_tail del: append_assoc)
    moreover have "takeWhile ?Q (cs @ ys) = takeWhile ?Q cs"
      using b by (intro takeWhile_append1 [of "CHR '']''"]) auto
    ultimately have t: "takeWhile ?Q cs = K @ '': '' @ V" by simp
    from b have "dropWhile ?Q cs \<noteq> []" by auto
    then obtain x r where dr: "dropWhile ?Q cs = x # r" by (cases "dropWhile ?Q cs") auto
    then have "\<not> ?Q x" using hd_dropWhile [of ?Q cs] by auto
    then have x: "x = CHR '']''" by simp
    have "cs = takeWhile ?Q cs @ dropWhile ?Q cs" by simp
    with t dr x have "cs = K @ '': '' @ V @ CHR '']'' # r" by simp
    with c have "ContextPattern (c # cs) = Some ((K, V), r)"
      using ContextPattern_tag [OF d(2) d(4) d(3) d(5), of r] by simp
    with None show ?thesis by simp
  qed
  with None show ?thesis by simp
qed

lemma re_finditer_closed_append:
  "brackets_closed xs \<Longrightarrow>
     re_finditer ContextPattern (xs @ ys)
       = re_finditer ContextPattern xs @ re_finditer ContextPattern ys"
proof (induction xs rule: length_induct)
  case (1 xs)
  show ?case
  proof (cases xs)
    case Nil
    then show ?thesis by (simp add: ContextPattern_Nil)
  next
    case (Cons c cs)
    with "1.prems" have cl: "c = CHR ''['' \<longrightarrow> CHR '']'' \<in> set cs" and bc: "brackets_closed cs"
      by (auto split: if_splits)
    have pc: "ContextPattern (c # cs @ ys)
        = map_option (\<lambda>(g, r). (g, r @ ys)) (ContextPattern (c # cs))"
      using ContextPattern_local [OF cl, of ys] by simp
    show ?thesis
    proof (cases "ContextPattern (c # cs)")
      case None
      with pc Cons bc "1.IH" show ?thesis by simp
    next
      case (Some gr)
      obtain K V r where gr: "gr = ((K, V), r)" by (cases gr) auto
      note d = ContextPattern_SomeD [OF Some [unfolded gr]]
      from d(1) have len: "length r < length (c # cs)" by simp
      from d(1) "1.prems" Cons have "brackets_closed ((CHR ''['' # K @ '': '' @ V @ '']'') @ r)"
        by simp
      then have "brackets_closed r" by (rule brackets_closed_append)
      with "1.IH" len Cons
      have "re_finditer ContextPattern (r @ ys)
          = re_finditer ContextPattern r @ re_finditer ContextPattern ys" by simp
      with len Some gr pc Cons show ?thesis by simp
    qed
  qed
qed

lemma re_finditer_tag:
  assumes "K \<noteq> []" and "\<forall>c \<in> set K. c \<noteq> CHR '':'' \<and> c \<noteq> CHR '']''"
    and "V \<noteq> []" and "CHR '']'' \<notin> set V"
  shows "re_finditer ContextPattern (''['' @ K @ '': '' @ V @ '']'' @ post)
      = (K, V) # re_finditer ContextPattern post"
  using ContextPattern_tag [OF assms, of post] by simp

lemma re_finditer_substring:
  "(K, V) \<in> set (re_finditer ContextPattern s) \<Longrightarrow> \<exists>a b. s = a @ (''['' @ K @ '': '') @ b"
proof (induction s rule: length_induct)
  case (1 s)
  show ?case
  proof (cases s)
    case Nil
    with "1.prems" show ?thesis by (simp add: ContextPattern_Nil)
  next
    case (Cons c cs)
    show ?thesis
    proof (cases "ContextPattern (c # cs)")
      case None
      with "1.prems" Cons have "(K, V) \<in> set (re_finditer ContextPattern cs)" by simp
      with "1.IH" Cons obtain a b where "cs = a @ (''['' @ K @ '': '') @ b" by fastforce
      then have "s = (c # a) @ (''['' @ K @ '': '') @ b" using Cons by simp
      then show ?thesis by blast
    next
      case (Some gr)
      obtain K' V' r where gr: "gr = ((K', V'), r)" by (cases gr) auto
      note d = ContextPattern_SomeD [OF Some [unfolded gr]]
      from d(1) have len: "length r < length (c # cs)" by simp
      with "1.prems" Cons Some gr
      consider "(K, V) = (K', V')" | "(K, V) \<in> set (re_finditer ContextPattern r)" by auto
      then show ?thesis
      proof cases
        case 1
        with d(1) Cons have "s = [] @ (''['' @ K @ '': '') @ (V @ CHR '']'' # r)" by simp
        then show ?thesis by blast
      next
        case 2
        with "1.IH" len Cons obtain a b where "r = a @ (''['' @ K @ '': '') @ b" by fastforce
        with d(1) Cons have "s = (CHR ''['' # K' @ '': '' @ V' @ CHR '']'' # a) @ (''['' @ K @ '': '') @ b"
          by simp
        then show ?thesis by blast
      qed
    qed
  qed
qed

lemma contains_substring: "contains (a @ sub @ b) sub"
proof (induction a)
  case Nil
  have s: "startswith (sub @ b) sub" by (simp add: startswith_def)
  show ?case
  proof (cases "sub @ b")
    case Nil
    then show ?thesis by simp
  next
    case (Cons c cs)
    with s show ?thesis by simp
  qed
next
  case (Cons x a)
  then show ?case by simp
qed

lemma lower_append: "lower (a @ b) = lower a @ lower b"
  by (simp add: lower_def)

lemma lower_tag_start: "lower (''['' @ K @ '': '' @ b) = ''['' @ lower K @ '': '' @ lower b"
proof -
  have "lower_char CHR ''['' = CHR ''[''" "lower_char CHR '':'' = CHR '':''"
    "lower_char CHR '' '' = CHR '' ''" by code_simp+
  then show ?thesis by (simp add: lower_def)
qed

lemma no_later_tag:
  assumes "\<not> contains (lower post) (''['' @ k @ '': '')"
  shows "\<forall>(Key', Value') \<in> set (re_finditer ContextPattern post). lower Key' \<noteq> k"
proof (clarify)
  fix K V
  assume "(K, V) \<in> set (re_finditer ContextPattern post)"
  then obtain a b where "post = a @ (''['' @ K @ '': '') @ b"
    using re_finditer_substring by blast
  then have "post = a @ (''['' @ K @ '': '' @ b)" by simp
  then have "lower post = lower a @ lower (''['' @ K @ '': '' @ b)"
    by (simp only: lower_append)
  then have "lower post = lower a @ (''['' @ lower K @ '': '') @ lower b"
    unfolding lower_tag_start by simp
  then have "contains (lower post) (''['' @ lower K @ '': '')"
    by (simp only: contains_substring)
  moreover assume "k = lower K"
  ultimately show False using assms by simp
qed

text \<open>
  Claim C10, as the code has it. The context tags are stored under their lowercased keys
  in the same mapping as the title and the timestamps, after those, and only
  \<open>doc_number\<close> is written later. So when the tag scan finds a tag whose lowercased
  key is \<open>title\<close>, \<open>created_at\<close>, \<open>modified_at\<close>, \<open>created_date\<close> or
  \<open>modified_date\<close>, the field holds the stripped value of the last such tag, whatever
  the heading and the markers gave. In terms of the text: a tag \<open>[Name: Val]\<close>, its
  name without colon and closing bracket, its value without closing bracket, both not
  empty, is found by the scan when every opening bracket before it is followed by a
  closing bracket before it; and it is the last one of its key when the text after it
  does not hold \<open>[name: \<close> in any letter case.
\<close>

theorem context_tag_overrides:
  "(re_finditer ContextPattern Content = before @ [(Key, Value)] @ after
      \<and> (\<forall>(Key', Value') \<in> set after. lower Key' \<noteq> lower Key)
      \<and> lower Key \<in> {''title'', ''created_at'', ''modified_at'', ''created_date'', ''modified_date''}
    \<longrightarrow> ExtractMetadata Content (lower Key) = Some (strip Value))
   \<and> (Text = pre @ ''['' @ Name @ '': '' @ Val @ '']'' @ post
      \<and> brackets_closed pre
      \<and> Name \<noteq> [] \<and> CHR '':'' \<notin> set Name \<and> CHR '']'' \<notin> set Name
      \<and> Val \<noteq> [] \<and> CHR '']'' \<notin> set Val
      \<and> \<not> contains (lower post) (''['' @ lower Name @ '': '')
      \<and> lower Name \<in> {''title'', ''created_at'', ''modified_at'', ''created_date'', ''modified_date''}
    \<longrightarrow> re_finditer ContextPattern Text
          = re_finditer ContextPattern pre @ [(Name, Val)] @ re_finditer ContextPattern post
        \<and> ExtractMetadata Text (lower Name) = Some (strip Val))"
proof (intro conjI impI)
  assume a: "re_finditer ContextPattern Content = before @ [(Key, Value)] @ after
      \<and> (\<forall>(Key', Value') \<in> set after. lower Key' \<noteq> lower Key)
      \<and> lower Key \<in> {''title'', ''created_at'', ''modified_at'', ''created_date'', ''modified_date''}"
  then have 1: "re_finditer ContextPattern Content = before @ [(Key, Value)] @ after"
    and 2: "\<forall>(Key', Value') \<in> set after. lower Key' \<noteq> lower Key"
    and 3: "lower Key \<noteq> ''doc_number''" by auto
  from ExtractMetadata_tagged [OF 1 2 3]
  show "ExtractMetadata Content (lower Key) = Some (strip Value)" .
next
  assume a: "Text = pre @ ''['' @ Name @ '': '' @ Val @ '']'' @ post
      \<and> brackets_closed pre
      \<and> Name \<noteq> [] \<and> CHR '':'' \<notin> set Name \<and> CHR '']'' \<notin> set Name
      \<and> Val \<noteq> [] \<and> CHR '']'' \<notin> set Val
      \<and> \<not> contains (lower post) (''['' @ lower Name @ '': '')
      \<and> lower Name \<in> {''title'', ''created_at'', ''modified_at'', ''created_date'', ''modified_date''}"
  then have t: "Text = pre @ ''['' @ Name @ '': '' @ Val @ '']'' @ post" and bc: "brackets_closed pre"
    and k: "Name \<noteq> []" "\<forall>c \<in> set Name. c \<noteq> CHR '':'' \<and> c \<noteq> CHR '']''"
    and v: "Val \<noteq> []" "CHR '']'' \<notin> set Val"
    and n: "\<not> contains (lower post) (''['' @ lower Name @ '': '')"
    and 3: "lower Name \<noteq> ''doc_number''" by auto
  have 1: "re_finditer ContextPattern Text
      = re_finditer ContextPattern pre @ [(Name, Val)] @ re_finditer ContextPattern post"
    unfolding t re_finditer_closed_append [OF bc] re_finditer_tag [OF k v] by simp
  then show "re_finditer ContextPattern Text
      = re_finditer ContextPattern pre @ [(Name, Val)] @ re_finditer ContextPattern post" .
  from ExtractMetadata_tagged [OF 1 no_later_tag [OF n] 3]
  show "ExtractMetadata Text (lower Name) = Some (strip Val)" .
qed

theorem context_tag_overrides_witness:
  "re_finditer ContextPattern
      ''# Heading\<newline>**Created: March 15, 2025 3:15 PM**\<newline>[Title: First]\<newline>[TITLE:  Second ]\<newline>[Created_Date: never]''
     = [(''Title'', ''First'')] @ [(''TITLE'', '' Second '')] @ [(''Created_Date'', ''never'')]
   \<and> lower ''Created_Date'' \<noteq> lower ''TITLE''
   \<and> lower ''TITLE'' = ''title''
   \<and> re_search_lines TitlePattern True
      ''# Heading\<newline>**Created: March 15, 2025 3:15 PM**\<newline>[Title: First]\<newline>[TITLE:  Second ]\<newline>[Created_Date: never]''
     = Some ''Heading''
   \<and> ExtractMetadata
      ''# Heading\<newline>**Created: March 15, 2025 3:15 PM**\<newline>[Title: First]\<newline>[TITLE:  Second ]\<newline>[Created_Date: never]''
      ''title'' = Some ''Second''
   \<and> ExtractMetadata
      ''# Heading\<newline>**Created: March 15, 2025 3:15 PM**\<newline>[Title: First]\<newline>[TITLE:  Second ]\<newline>[Created_Date: never]''
      ''created_date'' = Some ''never''
   \<and> ''# H [x]\<newline>[Title: First] [TITLE:  Second ] [Status: Draft] [x''
     = ''# H [x]\<newline>[Title: First] '' @ ''['' @ ''TITLE'' @ '': '' @ '' Second '' @ '']'' @ '' [Status: Draft] [x''
   \<and> brackets_closed ''# H [x]\<newline>[Title: First] ''
   \<and> \<not> contains (lower '' [Status: Draft] [x'') (''['' @ lower ''TITLE'' @ '': '')
   \<and> re_finditer ContextPattern ''# H [x]\<newline>[Title: First] [TITLE:  Second ] [Status: Draft] [x''
     = [(''Title'', ''First''), (''TITLE'', '' Second ''), (''Status'', ''Draft'')]
   \<and> ExtractMetadata ''# H [x]\<newline>[Title: First] [TITLE:  Second ] [Status: Draft] [x'' ''title''
     = Some ''Second''"
proof -
  let ?c = "''# Heading\<newline>**Created: March 15, 2025 3:15 PM**\<newline>[Title: First]\<newline>[TITLE:  Second ]\<newline>[Created_Date: never]''"
  let ?pre = "''# H [x]\<newline>[Title: First] ''"
  let ?post = "'' [Status: Draft] [x''"
  have f: "re_finditer ContextPattern ?c
      = [(''Title'', ''First'')] @ [(''TITLE'', '' Second '')] @ [(''Created_Date'', ''never'')]"
    by code_simp
  have f': "re_finditer ContextPattern ?c
      = [(''Title'', ''First''), (''TITLE'', '' Second '')] @ [(''Created_Date'', ''never'')] @ []"
    using f by simp
  have l: "lower ''TITLE'' = ''title''" "lower ''Created_Date'' = ''created_date''" by code_simp+
  have s: "strip '' Second '' = ''Second''" "strip ''never'' = ''never''" by code_simp+
  have t: "re_search_lines TitlePattern True ?c = Some ''Heading''" by code_simp
  have b: "brackets_closed ?pre" by code_simp
  have n: "\<not> contains (lower ?post) (''['' @ lower ''TITLE'' @ '': '')" by code_simp
  have p: "re_finditer ContextPattern ?pre = [(''Title'', ''First'')]"
    "re_finditer ContextPattern ?post = [(''Status'', ''Draft'')]" by code_simp+
  from context_tag_overrides [where Content = ?c and before = "[(''Title'', ''First'')]"
      and Key = "''TITLE''" and Value = "'' Second ''" and after = "[(''Created_Date'', ''never'')]"
      and Text = "?pre @ ''['' @ ''TITLE'' @ '': '' @ '' Second '' @ '']'' @ ?post"
      and pre = ?pre and Name = "''TITLE''" and Val = "'' Second ''" and post = ?post]
    context_tag_overrides [where Content = ?c
      and before = "[(''Title'', ''First''), (''TITLE'', '' Second '')]"
      and Key = "''Created_Date''" and Value = "''never''" and after = "[]"]
    f l s t b n p
  show ?thesis by simp
qed

end
